theory Spec2Isabelle
  imports Main "HOL-Library.Word"
begin

section \<open>Values shared by the components\<close>

text \<open>
  \<^verbatim>\<open>time.Duration\<close> is an \<^verbatim>\<open>int64\<close> count of nanoseconds; the package compares
  durations with \<open>0\<close> as signed numbers. An instant is read as the integer count of
  nanoseconds since the epoch, and \<^verbatim>\<open>t.Add(d)\<close> as the sum (the saturation of
  \<^verbatim>\<open>time.Time\<close> at the ends of its range is outside this model). An underlying
  \<^verbatim>\<open>net.Conn\<close> is named by a number.
\<close>

type_synonym duration = "64 word"
type_synonym time = int
type_synonym conn = nat

definition time_Add :: "time \<Rightarrow> duration \<Rightarrow> time" where
  "time_Add t d = t + sint d"

text \<open>
  The error values the package tells apart: its own sentinel \<^verbatim>\<open>errSingleListen\<close>;
  a \<^verbatim>\<open>*net.OpError\<close>, carrying what \<^verbatim>\<open>goagain.IsErrClosing\<close> and its method
  \<^verbatim>\<open>Timeout()\<close> answer for it; any other error value, carrying what
  \<^verbatim>\<open>goagain.IsErrClosing\<close> answers for it.
\<close>

datatype error = errSingleListen | OpError bool bool | OtherError bool

text \<open>A call in Go returns, or panics.\<close>

datatype 'a go = Returns 'a | Panics

section \<open>The single-use listener\<close>

text \<open>
  \<^verbatim>\<open>timeoutConn\<close> embeds the \<^verbatim>\<open>net.Conn\<close> it wraps and stores the two timeouts.
\<close>

record timeoutConn =
  Conn :: conn
  readTimeout :: duration
  writeTimeout :: duration

text \<open>
  \<^verbatim>\<open>singleListener\<close>: the accepted connection (an interface value, so it may be nil:
  \<open>None\<close>) and the \<^verbatim>\<open>sync.Once\<close>, which is the flag "already fired". The field
  \<^verbatim>\<open>l\<close> is read by \<^verbatim>\<open>Addr\<close> only and is left out.
\<close>

record singleListener =
  conn :: "conn option"
  once :: bool

text \<open>
  What the methods read and change outside the listener: the package variables
  \<^verbatim>\<open>TCPReadTimeout\<close> and \<^verbatim>\<open>TCPWriteTimeout\<close>, how often \<^verbatim>\<open>Close\<close> has been
  called on each underlying connection, and what the connection's \<^verbatim>\<open>Close\<close> answers.
\<close>

record world =
  TCPReadTimeout :: duration
  TCPWriteTimeout :: duration
  closes :: "conn \<Rightarrow> nat"
  close_result :: "conn \<Rightarrow> error option"

text \<open>
  \<^verbatim>\<open>once.Do(f)\<close> runs \<open>f\<close> if and only if the \<^verbatim>\<open>Once\<close> has not fired, and leaves it
  fired (also when \<open>f\<close> panics). \<^verbatim>\<open>sync.Once\<close> holds its mutex while \<open>f\<close> runs,
  so a \<^verbatim>\<open>Do\<close> is one atomic step: concurrent callers pass through it one after the
  other, and an execution with concurrent callers is a sequence of calls in the order in
  which they reach the \<^verbatim>\<open>Once\<close>.
\<close>

definition Do :: "bool \<Rightarrow> ('a \<Rightarrow> 'a) \<Rightarrow> 'a \<Rightarrow> bool \<times> 'a" where
  "Do fired f x = (if fired then (True, x) else (True, f x))"

text \<open>
  \<^verbatim>\<open>Accept\<close>: the closure copies \<^verbatim>\<open>s.conn\<close> into the local \<open>c\<close> (nil before);
  a non-nil \<open>c\<close> is returned inside a fresh \<^verbatim>\<open>timeoutConn\<close> holding the present
  values of the two package variables, a nil \<open>c\<close> gives \<^verbatim>\<open>errSingleListen\<close>.
\<close>

definition Accept :: "singleListener \<Rightarrow> world \<Rightarrow> (error + timeoutConn) \<times> singleListener" where
  "Accept s w =
     (case Do (once s) (\<lambda>_. conn s) None of
        (fired, c) \<Rightarrow>
          (case c of
             Some c' \<Rightarrow>
               (Inr \<lparr>Conn = c', readTimeout = TCPReadTimeout w, writeTimeout = TCPWriteTimeout w\<rparr>,
                s\<lparr>once := fired\<rparr>)
           | None \<Rightarrow> (Inl errSingleListen, s\<lparr>once := fired\<rparr>)))"

text \<open>
  The first revision of the file (\<^verbatim>\<open>httpagain.go\<close>) has the same \<^verbatim>\<open>Accept\<close> except
  that it returns \<open>c\<close> itself, with no wrapper.
\<close>

definition Accept_unwrapped :: "singleListener \<Rightarrow> (error + conn) \<times> singleListener" where
  "Accept_unwrapped s =
     (case Do (once s) (\<lambda>_. conn s) None of
        (fired, c) \<Rightarrow>
          (case c of
             Some c' \<Rightarrow> (Inr c', s\<lparr>once := fired\<rparr>)
           | None \<Rightarrow> (Inl errSingleListen, s\<lparr>once := fired\<rparr>)))"

text \<open>
  \<^verbatim>\<open>s.conn.Close()\<close>: a method call on a nil interface panics; otherwise the connection
  counts one more \<^verbatim>\<open>Close\<close> and gives its answer.
\<close>

fun conn_Close :: "conn option \<Rightarrow> world \<Rightarrow> error option go \<times> world" where
  "conn_Close None w = (Panics, w)"
| "conn_Close (Some c) w =
     (Returns (close_result w c), w\<lparr>closes := (closes w)(c := closes w c + 1)\<rparr>)"

text \<open>
  \<^verbatim>\<open>Close\<close>: the named result \<open>err\<close> starts nil; the closure, run through the same
  \<^verbatim>\<open>Once\<close> as in \<^verbatim>\<open>Accept\<close>, assigns it the answer of \<^verbatim>\<open>s.conn.Close()\<close>.
\<close>

definition Close :: "singleListener \<Rightarrow> world \<Rightarrow> error option go \<times> singleListener \<times> world" where
  "Close s w =
     (case Do (once s) (\<lambda>(err, w'). conn_Close (conn s) w') (Returns None, w) of
        (fired, (err, w')) \<Rightarrow> (err, s\<lparr>once := fired\<rparr>, w'))"

text \<open>
  A run of calls on one listener, in the order in which they reach the \<^verbatim>\<open>Once\<close>,
  with the reply each caller gets.
\<close>

datatype call = AcceptCall | CloseCall

datatype reply = Accepted "error + timeoutConn" | Closed "error option go"

fun calls :: "call list \<Rightarrow> singleListener \<Rightarrow> world \<Rightarrow> reply list \<times> singleListener \<times> world" where
  "calls [] s w = ([], s, w)"
| "calls (AcceptCall # cs) s w =
     (case Accept s w of
        (r, s') \<Rightarrow> (case calls cs s' w of (rs, s'', w'') \<Rightarrow> (Accepted r # rs, s'', w'')))"
| "calls (CloseCall # cs) s w =
     (case Close s w of
        (r, s', w') \<Rightarrow> (case calls cs s' w' of (rs, s'', w'') \<Rightarrow> (Closed r # rs, s'', w'')))"

text \<open>The reply hands out the connection \<open>c\<close> (wrapped).\<close>

fun hands_out :: "conn \<Rightarrow> reply \<Rightarrow> bool" where
  "hands_out c (Accepted (Inr tc)) = (Conn tc = c)"
| "hands_out c (Accepted (Inl e)) = False"
| "hands_out c (Closed r) = False"

text \<open>The reply of a call that found the \<^verbatim>\<open>Once\<close> fired.\<close>

fun spent :: "call \<Rightarrow> reply" where
  "spent AcceptCall = Accepted (Inl errSingleListen)"
| "spent CloseCall = Closed (Returns None)"

text \<open>Worlds and a listener for the concrete runs below.\<close>

definition quiet_world :: world where
  "quiet_world =
     \<lparr>TCPReadTimeout = 30000000000, TCPWriteTimeout = 30000000000,
      closes = (\<lambda>_. 0), close_result = (\<lambda>_. None)\<rparr>"

definition failing_close_world :: world where
  "failing_close_world =
     \<lparr>TCPReadTimeout = 30000000000, TCPWriteTimeout = 30000000000,
      closes = (\<lambda>_. 0), close_result = (\<lambda>_. Some (OtherError False))\<rparr>"

definition fresh_listener :: singleListener where
  "fresh_listener = \<lparr>conn = Some 7, once = False\<rparr>"

section \<open>The connection with timeouts\<close>

text \<open>
  The methods of the embedded \<^verbatim>\<open>net.Conn\<close> that \<^verbatim>\<open>timeoutConn\<close> calls, over the
  state \<open>'c\<close> of the connection behind the interface. Each takes its argument and the
  state and gives its results and the new state; \<^verbatim>\<open>Read\<close> and \<^verbatim>\<open>Write\<close> answer
  with the count \<open>n\<close> and the error.
\<close>

type_synonym bytes = "8 word list"

record 'c net_Conn =
  SetReadDeadline :: "time \<Rightarrow> 'c \<Rightarrow> error option \<times> 'c"
  SetWriteDeadline :: "time \<Rightarrow> 'c \<Rightarrow> error option \<times> 'c"
  Read :: "bytes \<Rightarrow> 'c \<Rightarrow> (nat \<times> error option) \<times> 'c"
  Write :: "bytes \<Rightarrow> 'c \<Rightarrow> (nat \<times> error option) \<times> 'c"

text \<open>
  \<^verbatim>\<open>timeoutConn.Read\<close> and \<^verbatim>\<open>timeoutConn.Write\<close>; \<open>now\<close> is what \<^verbatim>\<open>time.Now()\<close>
  reads in the call, \<open>U\<close> the connection behind \<^verbatim>\<open>c.Conn\<close>.
\<close>

definition timeoutConn_Read ::
  "'c net_Conn \<Rightarrow> timeoutConn \<Rightarrow> time \<Rightarrow> bytes \<Rightarrow> 'c \<Rightarrow> (nat \<times> error option) \<times> 'c" where
  "timeoutConn_Read U c now b st =
     (if 0 <s readTimeout c then
        (case SetReadDeadline U (time_Add now (readTimeout c)) st of
           (Some err, st') \<Rightarrow> ((0, Some err), st')
         | (None, st') \<Rightarrow> Read U b st')
      else Read U b st)"

definition timeoutConn_Write ::
  "'c net_Conn \<Rightarrow> timeoutConn \<Rightarrow> time \<Rightarrow> bytes \<Rightarrow> 'c \<Rightarrow> (nat \<times> error option) \<times> 'c" where
  "timeoutConn_Write U c now b st =
     (if 0 <s writeTimeout c then
        (case SetWriteDeadline U (time_Add now (writeTimeout c)) st of
           (Some err, st') \<Rightarrow> ((0, Some err), st')
         | (None, st') \<Rightarrow> Write U b st')
      else Write U b st)"

text \<open>
  To observe which methods of the underlying connection are called, with which
  arguments and in which order, any connection is put behind a recorder: it behaves as
  the connection does and appends every call it receives to a log.
\<close>

datatype conn_call =
  SetReadDeadline_call time | SetWriteDeadline_call time | Read_call bytes | Write_call bytes

definition recording :: "'c net_Conn \<Rightarrow> ('c \<times> conn_call list) net_Conn" where
  "recording U =
     \<lparr>SetReadDeadline = (\<lambda>t (st, lg).
        (fst (SetReadDeadline U t st), (snd (SetReadDeadline U t st), lg @ [SetReadDeadline_call t]))),
      SetWriteDeadline = (\<lambda>t (st, lg).
        (fst (SetWriteDeadline U t st), (snd (SetWriteDeadline U t st), lg @ [SetWriteDeadline_call t]))),
      Read = (\<lambda>b (st, lg). (fst (Read U b st), (snd (Read U b st), lg @ [Read_call b]))),
      Write = (\<lambda>b (st, lg). (fst (Write U b st), (snd (Write U b st), lg @ [Write_call b])))\<rparr>"

text \<open>
  A connection for the concrete runs: its state is the number of bytes waiting to be
  read; setting a deadline gives the answer \<open>dl\<close>.
\<close>

definition pipe_conn :: "error option \<Rightarrow> nat net_Conn" where
  "pipe_conn dl =
     \<lparr>SetReadDeadline = (\<lambda>t st. (dl, st)),
      SetWriteDeadline = (\<lambda>t st. (dl, st)),
      Read = (\<lambda>b st. ((min (length b) st, None), st - min (length b) st)),
      Write = (\<lambda>b st. ((length b, None), st + length b))\<rparr>"

section \<open>Wait groups\<close>

text \<open>
  A \<^verbatim>\<open>sync.WaitGroup\<close> is its counter, an \<^verbatim>\<open>int32\<close>: a word of 32 bits read as a
  signed number. \<^verbatim>\<open>Add(delta)\<close> adds \<open>delta\<close>, wrapping around, and panics when
  the counter it leaves is negative (the counter keeps the new value); so it panics also
  when the counter passes its largest value \<open>2147483647\<close>. \<^verbatim>\<open>Done()\<close> is
  \<^verbatim>\<open>Add(-1)\<close>. The second component says whether the call panics.
\<close>

type_synonym counter = "32 word"

definition wg_Add :: "counter \<Rightarrow> int \<Rightarrow> counter \<times> bool" where
  "wg_Add wg delta = (wg + word_of_int delta, wg + word_of_int delta <s 0)"

definition wg_Done :: "counter \<Rightarrow> counter \<times> bool" where
  "wg_Done wg = wg_Add wg (- 1)"

section \<open>The accept loop\<close>

text \<open>
  The dynamic type of the listener \<open>l\<close>: the loop asserts \<^verbatim>\<open>l.(*net.TCPListener)\<close>.
\<close>

datatype listener = TCPListener | OtherListener

text \<open>
  \<^verbatim>\<open>goagain.IsErrClosing(err)\<close>, and \<^verbatim>\<open>err.(*net.OpError).Timeout()\<close>, whose type
  assertion panics on an error that is no \<^verbatim>\<open>*net.OpError\<close>.
\<close>

fun IsErrClosing :: "error \<Rightarrow> bool" where
  "IsErrClosing errSingleListen = False"
| "IsErrClosing (OpError closing tmo) = closing"
| "IsErrClosing (OtherError closing) = closing"

fun OpError_Timeout :: "error \<Rightarrow> bool go" where
  "OpError_Timeout (OpError closing tmo) = Returns tmo"
| "OpError_Timeout errSingleListen = Panics"
| "OpError_Timeout (OtherError closing) = Panics"

definition breakAcceptInterval :: duration where
  "breakAcceptInterval = 100000000"

text \<open>
  What the loop reads and changes: the channel \<^verbatim>\<open>Shutdown\<close> (closed or not), the
  counters of \<^verbatim>\<open>acceptWG\<close> and \<^verbatim>\<open>requestWG\<close>, and the calls it has made on the
  listener and the server so far.
\<close>

datatype loop_call = SetDeadline time | Accept_call | Serve conn

record server =
  Shutdown :: bool
  acceptWG :: counter
  requestWG :: counter
  trace :: "loop_call list"

text \<open>
  What the surroundings answer during one pass of the loop: the clock, the answers of
  \<^verbatim>\<open>l.SetDeadline\<close>, \<^verbatim>\<open>l.Accept()\<close> and \<^verbatim>\<open>srv.Serve(sl)\<close>, and whether the main
  goroutine runs \<^verbatim>\<open>close(Shutdown)\<close> while the pass is under way (after its check of
  the channel).
\<close>

record pass =
  clock :: time
  SetDeadline_err :: "error option"
  Accept_res :: "error + conn"
  Serve_err :: "error option"
  signal :: bool

text \<open>
  How the loop is left: by \<^verbatim>\<open>return\<close>, by \<^verbatim>\<open>log.Fatalln(err)\<close> (the process exits
  with status 1), or by a panic (which, not recovered in this goroutine, ends the
  process).
\<close>

datatype leave = Returned | Fatal error | Panicked

datatype flow = Continue | Leave leave

text \<open>The body of the \<^verbatim>\<open>for\<close> loop after the check of \<^verbatim>\<open>Shutdown\<close>.\<close>

definition loop_body :: "listener \<Rightarrow> pass \<Rightarrow> server \<Rightarrow> flow \<times> server" where
  "loop_body l p s =
     (case l of
        OtherListener \<Rightarrow> (Leave Panicked, s)
      | TCPListener \<Rightarrow>
          (let s1 = s\<lparr>trace := trace s @ [SetDeadline (time_Add (clock p) breakAcceptInterval)]\<rparr> in
           case SetDeadline_err p of
             Some err \<Rightarrow> (Leave (Fatal err), s1)
           | None \<Rightarrow>
               (let s2 = s1\<lparr>trace := trace s1 @ [Accept_call]\<rparr> in
                case Accept_res p of
                  Inl err \<Rightarrow>
                    (if IsErrClosing err then (Leave Returned, s2)
                     else (case OpError_Timeout err of
                             Panics \<Rightarrow> (Leave Panicked, s2)
                           | Returns tmo \<Rightarrow>
                               if tmo then (Continue, s2) else (Leave (Fatal err), s2)))
                | Inr c \<Rightarrow>
                    (case wg_Add (requestWG s2) 1 of
                       (n, panics) \<Rightarrow>
                         (let s3 = s2\<lparr>requestWG := n\<rparr> in
                          if panics then (Leave Panicked, s3)
                          else (let s4 = s3\<lparr>trace := trace s3 @ [Serve c]\<rparr> in
                                case Serve_err p of
                                  None \<Rightarrow> (Continue, s4)
                                | Some err \<Rightarrow>
                                    if err = errSingleListen then (Continue, s4)
                                    else (Leave (Fatal err), s4)))))))"

text \<open>
  The \<^verbatim>\<open>for\<close> loop over the passes the surroundings provide. \<open>None\<close>: the loop is
  still running when they are used up.
\<close>

fun acceptLoop_for :: "listener \<Rightarrow> pass list \<Rightarrow> server \<Rightarrow> leave option \<times> server" where
  "acceptLoop_for l [] s = (if Shutdown s then (Some Returned, s) else (None, s))"
| "acceptLoop_for l (p # ps) s =
     (if Shutdown s then (Some Returned, s)
      else (case loop_body l p s of
              (Continue, s') \<Rightarrow> acceptLoop_for l ps (s'\<lparr>Shutdown := Shutdown s' \<or> signal p\<rparr>)
            | (Leave x, s') \<Rightarrow> (Some x, s'\<lparr>Shutdown := Shutdown s' \<or> signal p\<rparr>)))"

text \<open>
  \<^verbatim>\<open>acceptLoop\<close>: the deferred \<^verbatim>\<open>acceptWG.Done()\<close> runs when the loop returns or
  panics, not when \<^verbatim>\<open>log.Fatalln\<close> ends the process.
\<close>

definition acceptLoop :: "listener \<Rightarrow> pass list \<Rightarrow> server \<Rightarrow> leave option \<times> server" where
  "acceptLoop l ps s =
     (case acceptLoop_for l ps s of
        (None, s') \<Rightarrow> (None, s')
      | (Some (Fatal err), s') \<Rightarrow> (Some (Fatal err), s')
      | (Some x, s') \<Rightarrow>
          (case wg_Done (acceptWG s') of
             (n, panics) \<Rightarrow> (Some (if panics then Panicked else x), s'\<lparr>acceptWG := n\<rparr>)))"

text \<open>The number of \<^verbatim>\<open>l.Accept()\<close> calls in a trace.\<close>

definition accepts :: "loop_call list \<Rightarrow> nat" where
  "accepts tr = length (filter (\<lambda>c. c = Accept_call) tr)"

section \<open>The census of requests\<close>

text \<open>
  \<^verbatim>\<open>wrapHandler(h, wg)\<close>: the handler it returns defers \<^verbatim>\<open>wg.Done()\<close> and calls
  \<open>h\<close>, which returns or panics; the deferred call runs on both paths, and a panic of
  its own leaves the handler panicking.
\<close>

datatype ending = Normal | Panicking

definition wrapHandler :: "('r \<Rightarrow> ending) \<Rightarrow> 'r \<Rightarrow> counter \<Rightarrow> ending \<times> counter" where
  "wrapHandler h r wg =
     (case wg_Done wg of (n, panics) \<Rightarrow> (if panics then Panicking else h r, n))"

text \<open>
  What happens to \<^verbatim>\<open>requestWG\<close> in an execution, event by event. \<open>Connection\<close>:
  the accept loop has accepted a connection and, before it calls \<^verbatim>\<open>srv.Serve(sl)\<close>,
  runs \<^verbatim>\<open>requestWG.Add(1)\<close>; a panic there is a panic of the accept loop, which ends
  the process. \<open>Request r\<close>: the server runs the wrapped handler on a request \<open>r\<close> of
  some accepted connection, to its end. The result is the counter and the endings of the
  handlers run, in order.
\<close>

datatype 'r event = Connection | Request 'r

fun census ::
  "('r \<Rightarrow> ending) \<Rightarrow> 'r event list \<Rightarrow> counter \<times> ending list \<Rightarrow> counter \<times> ending list" where
  "census h [] st = st"
| "census h (Connection # es) (wg, ends) =
     (case wg_Add wg 1 of
        (n, panics) \<Rightarrow> if panics then (n, ends) else census h es (n, ends))"
| "census h (Request r # es) (wg, ends) =
     (case wrapHandler h r wg of (e, n) \<Rightarrow> census h es (n, ends @ [e]))"

text \<open>
  An execution in which, from the counter \<open>c\<close> on, every handler ends while the
  counter is positive and no connection is accepted while the counter has its largest
  value.
\<close>

fun covered :: "'r event list \<Rightarrow> counter \<Rightarrow> bool" where
  "covered [] c = True"
| "covered (Connection # es) c = (\<not> c + 1 <s 0 \<and> covered es (c + 1))"
| "covered (Request r # es) c = (0 <s c \<and> covered es (c - 1))"

fun is_Connection :: "'r event \<Rightarrow> bool" where
  "is_Connection Connection = True"
| "is_Connection (Request r) = False"

text \<open>Wrappers and a second listener for the concrete runs.\<close>

definition tc_read_only :: timeoutConn where
  "tc_read_only = \<lparr>Conn = 7, readTimeout = 50000000, writeTimeout = 0\<rparr>"

definition tc_write_only :: timeoutConn where
  "tc_write_only = \<lparr>Conn = 7, readTimeout = 0, writeTimeout = 50000000\<rparr>"

definition second_listener :: singleListener where
  "second_listener = \<lparr>conn = Some 8, once = False\<rparr>"

text \<open>A server state and passes for the concrete runs of the loop.\<close>

definition server0 :: server where
  "server0 = \<lparr>Shutdown = False, acceptWG = 1, requestWG = 0, trace = []\<rparr>"

definition full_server :: server where
  "full_server = server0\<lparr>requestWG := 2147483647\<rparr>"

definition timeout_pass :: pass where
  "timeout_pass =
     \<lparr>clock = 0, SetDeadline_err = None, Accept_res = Inl (OpError False True),
      Serve_err = None, signal = False\<rparr>"

definition conn_pass :: "conn \<Rightarrow> pass" where
  "conn_pass c =
     \<lparr>clock = 0, SetDeadline_err = None, Accept_res = Inr c,
      Serve_err = Some errSingleListen, signal = False\<rparr>"

definition signal_pass :: pass where
  "signal_pass = timeout_pass\<lparr>signal := True\<rparr>"

definition closing_pass :: pass where
  "closing_pass = timeout_pass\<lparr>Accept_res := Inl (OpError True False)\<rparr>"

definition refused_pass :: pass where
  "refused_pass = timeout_pass\<lparr>Accept_res := Inl (OpError False False)\<rparr>"

definition strange_pass :: pass where
  "strange_pass = timeout_pass\<lparr>Accept_res := Inl (OtherError False)\<rparr>"

definition unserved_pass :: pass where
  "unserved_pass = (conn_pass 7)\<lparr>Serve_err := Some (OtherError False)\<rparr>"

text \<open>The requests of an execution, in order.\<close>

fun requests :: "'r event list \<Rightarrow> 'r list" where
  "requests [] = []"
| "requests (Connection # es) = requests es"
| "requests (Request r # es) = r # requests es"

section \<open>The shutdown sequence\<close>

text \<open>
  The end of \<^verbatim>\<open>ListenAndServe\<close>, from \<^verbatim>\<open>close(Shutdown)\<close> on: \<^verbatim>\<open>allDoneWG.Add(3)\<close>,
  three goroutines \<^verbatim>\<open>timeoutWaitGroup\<close> (for \<^verbatim>\<open>acceptWG\<close> with timeout \<open>0\<close>, for
  \<^verbatim>\<open>requestWG\<close> with \<^verbatim>\<open>RequestGracePeriod\<close>, for \<^verbatim>\<open>goroutineWG\<close> with
  \<^verbatim>\<open>GoroutineGracePeriod\<close>), \<^verbatim>\<open>allDoneWG.Wait()\<close>, and then \<^verbatim>\<open>goagain.Exec(l)\<close> if
  the signal was \<^verbatim>\<open>SIGUSR2\<close>. The goroutines run concurrently with each other and with
  the work they wait for, so the sequence is modelled as a machine that takes one atomic
  action at a time, in any order; an action that cannot be taken in a state leaves the
  state as it is. Time is not measured: a timer may fire at any moment after the start.
\<close>

datatype pool = AcceptPool | RequestPool | GoroutinePool

datatype select_case = DoneWG | TimeoutChan

datatype signal_kind = SIGUSR2 | OtherSignal

datatype post = ReExec | ProcessExit

record grace =
  RequestGracePeriod :: duration
  GoroutineGracePeriod :: duration

fun timeout :: "grace \<Rightarrow> pool \<Rightarrow> duration" where
  "timeout g AcceptPool = 0"
| "timeout g RequestPool = RequestGracePeriod g"
| "timeout g GoroutinePool = GoroutineGracePeriod g"

fun timeoutMsg :: "pool \<Rightarrow> string" where
  "timeoutMsg AcceptPool = []"
| "timeoutMsg RequestPool =
     ''some requests did not finish in allowed period, they will be killed''"
| "timeoutMsg GoroutinePool =
     ''some goroutines did not finish in allowed period, they will be killed''"

text \<open>
  The state. \<open>pools\<close>: the counters of the three wait groups. For each
  \<^verbatim>\<open>timeoutWaitGroup\<close>: \<open>doneWG\<close>, whether its inner goroutine has run
  \<^verbatim>\<open>close(doneWG)\<close>; \<open>timeoutChan\<close>, \<open>None\<close> for the nil channel and otherwise
  whether \<^verbatim>\<open>time.After\<close> has delivered; \<open>taken\<close>, the case its \<^verbatim>\<open>select\<close> took
  (from then on its \<^verbatim>\<open>allDoneWG.Done()\<close> has run). \<open>logged\<close>: the lines printed by
  \<^verbatim>\<open>log.Println\<close>. \<open>returned\<close>: what \<^verbatim>\<open>ListenAndServe\<close> did after
  \<^verbatim>\<open>allDoneWG.Wait()\<close>, \<open>None\<close> while it waits.
\<close>

record shutdown =
  pools :: "pool \<Rightarrow> counter"
  doneWG :: "pool \<Rightarrow> bool"
  timeoutChan :: "pool \<Rightarrow> bool option"
  taken :: "pool \<Rightarrow> select_case option"
  allDoneWG :: counter
  logged :: "string list"
  returned :: "post option"

text \<open>
  In \<^verbatim>\<open>timeoutWaitGroup\<close>, the channel \<open>timeoutChan\<close> before the \<^verbatim>\<open>select\<close>: nil
  unless \<open>timeout > 0\<close>, when it is the channel of \<^verbatim>\<open>time.After(timeout)\<close>.
\<close>

definition timeoutWaitGroup_timeoutChan :: "duration \<Rightarrow> bool option" where
  "timeoutWaitGroup_timeoutChan d = (if 0 <s d then Some False else None)"

text \<open>
  The state after \<^verbatim>\<open>allDoneWG.Add(3)\<close>, when the three goroutines stand at their
  \<^verbatim>\<open>select\<close>; \<open>c\<close> gives the counters of the pools at that moment.
\<close>

definition shutdown_start :: "grace \<Rightarrow> (pool \<Rightarrow> counter) \<Rightarrow> shutdown" where
  "shutdown_start g c =
     \<lparr>pools = c, doneWG = (\<lambda>p. False),
      timeoutChan = (\<lambda>p. timeoutWaitGroup_timeoutChan (timeout g p)),
      taken = (\<lambda>p. None), allDoneWG = 3, logged = [], returned = None\<rparr>"

text \<open>
  The actions. \<open>Work_begins\<close> and \<open>Work_ends\<close>: an \<^verbatim>\<open>Add(1)\<close> and a
  \<^verbatim>\<open>Done()\<close> on a pool's wait group by the work it counts (the accept loop, the
  wrapped handlers, \<^verbatim>\<open>Begin\<close> and \<^verbatim>\<open>End\<close>). \<open>Wait_returns\<close>: the inner
  goroutine's \<^verbatim>\<open>wg.Wait()\<close> returns, the counter being zero, and it closes
  \<open>doneWG\<close>. \<open>Timer_fires\<close>: \<^verbatim>\<open>time.After\<close> delivers. \<open>Select\<close>: the
  \<^verbatim>\<open>select\<close> takes a case that is ready, prints \<open>timeoutMsg\<close> if it is the timeout
  case, and runs \<^verbatim>\<open>allDoneWG.Done()\<close>. \<open>Main_proceeds\<close>: \<^verbatim>\<open>allDoneWG.Wait()\<close>
  returns, the counter being zero, and \<^verbatim>\<open>ListenAndServe\<close> re-executes or returns.
\<close>

datatype action =
    Work_begins pool
  | Work_ends pool
  | Wait_returns pool
  | Timer_fires pool
  | Select pool select_case
  | Main_proceeds

fun ready :: "shutdown \<Rightarrow> pool \<Rightarrow> select_case \<Rightarrow> bool" where
  "ready s p DoneWG = doneWG s p"
| "ready s p TimeoutChan = (timeoutChan s p = Some True)"

text \<open>
  In \<^verbatim>\<open>timeoutWaitGroup\<close>, the goroutine \<^verbatim>\<open>wg.Wait(); close(doneWG)\<close>: it goes on
  when the pool's counter is zero.
\<close>

definition timeoutWaitGroup_Wait :: "pool \<Rightarrow> shutdown \<Rightarrow> shutdown" where
  "timeoutWaitGroup_Wait p s =
     (if pools s p = 0 then s\<lparr>doneWG := (doneWG s)(p := True)\<rparr> else s)"

text \<open>
  In \<^verbatim>\<open>timeoutWaitGroup\<close>, the \<^verbatim>\<open>select\<close> and what follows it: the case \<open>c\<close> is
  taken if it is ready (once per goroutine); the timeout case prints \<open>timeoutMsg\<close>;
  then \<^verbatim>\<open>allDoneWG.Done()\<close>.
\<close>

definition timeoutWaitGroup_select :: "pool \<Rightarrow> select_case \<Rightarrow> shutdown \<Rightarrow> shutdown" where
  "timeoutWaitGroup_select p c s =
     (if taken s p = None \<and> ready s p c then
        s\<lparr>taken := (taken s)(p := Some c),
          logged := (if c = TimeoutChan then logged s @ [timeoutMsg p] else logged s),
          allDoneWG := fst (wg_Done (allDoneWG s))\<rparr>
      else s)"

text \<open>
  In \<^verbatim>\<open>ListenAndServe\<close>, \<^verbatim>\<open>allDoneWG.Wait()\<close> and what follows it: when the counter
  is zero, \<^verbatim>\<open>goagain.Exec(l)\<close> if the signal received is \<^verbatim>\<open>SIGUSR2\<close>, and the return
  otherwise.
\<close>

definition ListenAndServe_Wait :: "signal_kind \<Rightarrow> shutdown \<Rightarrow> shutdown" where
  "ListenAndServe_Wait sig s =
     (if returned s = None \<and> allDoneWG s = 0 then
        s\<lparr>returned := Some (if sig = SIGUSR2 then ReExec else ProcessExit)\<rparr>
      else s)"

fun step :: "signal_kind \<Rightarrow> action \<Rightarrow> shutdown \<Rightarrow> shutdown" where
  "step sig (Work_begins p) s = s\<lparr>pools := (pools s)(p := fst (wg_Add (pools s p) 1))\<rparr>"
| "step sig (Work_ends p) s = s\<lparr>pools := (pools s)(p := fst (wg_Done (pools s p)))\<rparr>"
| "step sig (Wait_returns p) s = timeoutWaitGroup_Wait p s"
| "step sig (Timer_fires p) s =
     (if timeoutChan s p = Some False then s\<lparr>timeoutChan := (timeoutChan s)(p := Some True)\<rparr>
      else s)"
| "step sig (Select p c) s = timeoutWaitGroup_select p c s"
| "step sig Main_proceeds s = ListenAndServe_Wait sig s"

fun run :: "signal_kind \<Rightarrow> action list \<Rightarrow> shutdown \<Rightarrow> shutdown" where
  "run sig [] s = s"
| "run sig (a # as) s = run sig as (step sig a s)"

text \<open>
  The number of goroutines still at their \<^verbatim>\<open>select\<close>, the pools whose wait ended by
  timeout, and the invariant of the machine.
\<close>

definition waiting :: "shutdown \<Rightarrow> counter" where
  "waiting s =
     (if taken s AcceptPool = None then 1 else 0)
     + (if taken s RequestPool = None then 1 else 0)
     + (if taken s GoroutinePool = None then 1 else 0)"

definition timed_out :: "shutdown \<Rightarrow> pool list" where
  "timed_out s = filter (\<lambda>p. taken s p = Some TimeoutChan) [AcceptPool, RequestPool, GoroutinePool]"

definition shutdown_inv :: "grace \<Rightarrow> signal_kind \<Rightarrow> shutdown \<Rightarrow> bool" where
  "shutdown_inv g sig s \<longleftrightarrow>
     allDoneWG s = waiting s
     \<and> (\<forall>p. taken s p = Some DoneWG \<longrightarrow> doneWG s p)
     \<and> (\<forall>p. taken s p = Some TimeoutChan \<longrightarrow> timeoutChan s p = Some True)
     \<and> (\<forall>p. timeoutChan s p \<noteq> None \<longrightarrow> 0 <s timeout g p)
     \<and> (returned s \<noteq> None \<longrightarrow> allDoneWG s = 0)
     \<and> (\<forall>x. returned s = Some x \<longrightarrow> x = (if sig = SIGUSR2 then ReExec else ProcessExit))
     \<and> length (logged s) = length (timed_out s)
     \<and> set (logged s) = timeoutMsg ` set (timed_out s)"

text \<open>How often work of a pool begins and ends in a list of actions.\<close>

definition begun :: "pool \<Rightarrow> action list \<Rightarrow> nat" where
  "begun p acts = length (filter (\<lambda>a. a = Work_begins p) acts)"

definition ended :: "pool \<Rightarrow> action list \<Rightarrow> nat" where
  "ended p acts = length (filter (\<lambda>a. a = Work_ends p) acts)"

text \<open>
  A concrete shutdown: no grace period for requests, 30 s for goroutines, one unit of
  work in each pool; the goroutine outlasts its grace period.
\<close>

definition wait_for_requests :: grace where
  "wait_for_requests = \<lparr>RequestGracePeriod = 0, GoroutineGracePeriod = 30000000000\<rparr>"

definition one_each :: "pool \<Rightarrow> counter" where
  "one_each p = 1"

definition slow_goroutine :: "action list" where
  "slow_goroutine =
     [Work_ends AcceptPool, Wait_returns AcceptPool, Select AcceptPool DoneWG,
      Timer_fires RequestPool, Select RequestPool TimeoutChan,
      Timer_fires GoroutinePool, Select GoroutinePool TimeoutChan, Main_proceeds,
      Work_ends RequestPool, Wait_returns RequestPool, Select RequestPool DoneWG,
      Main_proceeds]"

section \<open>Properties of the single-use listener\<close>

lemma Accept_fresh:
  "once s = False \<Longrightarrow> conn s = Some c \<Longrightarrow>
   Accept s w =
     (Inr \<lparr>Conn = c, readTimeout = TCPReadTimeout w, writeTimeout = TCPWriteTimeout w\<rparr>,
      s\<lparr>once := True\<rparr>)"
  by (simp add: Accept_def Do_def)

lemma Accept_spent: "once s \<Longrightarrow> Accept s w = (Inl errSingleListen, s)"
  by (simp add: Accept_def Do_def)

lemma Close_fresh:
  "once s = False \<Longrightarrow> conn s = Some c \<Longrightarrow>
   Close s w =
     (Returns (close_result w c), s\<lparr>once := True\<rparr>,
      w\<lparr>closes := (closes w)(c := closes w c + 1)\<rparr>)"
  by (simp add: Close_def Do_def)

lemma Close_spent: "once s \<Longrightarrow> Close s w = (Returns None, s, w)"
  by (simp add: Close_def Do_def)

lemma calls_spent: "once s \<Longrightarrow> calls cs s w = (map spent cs, s, w)"
proof (induction cs)
  case Nil
  then show ?case by simp
next
  case (Cons a cs)
  then show ?case by (cases a) (simp_all add: Accept_spent Close_spent)
qed

lemma Accept_unwrapped_eq:
  "Accept_unwrapped s = (map_sum id Conn (fst (Accept s w)), snd (Accept s w))"
  by (simp add: Accept_unwrapped_def Accept_def Do_def split: option.split)

lemma calls_Accept_first:
  assumes "once s = False" and "conn s = Some c"
  shows "calls (AcceptCall # cs) s w =
    (Accepted (Inr \<lparr>Conn = c, readTimeout = TCPReadTimeout w, writeTimeout = TCPWriteTimeout w\<rparr>)
       # map spent cs,
     s\<lparr>once := True\<rparr>, w)"
  using assms by (simp add: Accept_fresh calls_spent)

lemma calls_Close_first:
  assumes "once s = False" and "conn s = Some c"
  shows "calls (CloseCall # cs) s w =
    (Closed (Returns (close_result w c)) # map spent cs,
     s\<lparr>once := True\<rparr>, w\<lparr>closes := (closes w)(c := closes w c + 1)\<rparr>)"
  using assms by (simp add: Close_fresh calls_spent)

lemma hands_out_spent: "filter (hands_out c) (map spent cs) = []"
proof (induction cs)
  case Nil
  then show ?case by simp
next
  case (Cons a cs)
  then show ?case by (cases a) simp_all
qed

text \<open>
  C2, as the specification states it, fails when a \<^verbatim>\<open>Close\<close> reaches the \<^verbatim>\<open>Once\<close>
  before any \<^verbatim>\<open>Accept\<close>: \<^verbatim>\<open>Accept\<close> and \<^verbatim>\<open>Close\<close> share the \<^verbatim>\<open>Once\<close>, so the
  first call of \<^verbatim>\<open>Accept\<close> then returns \<^verbatim>\<open>errSingleListen\<close>, not the connection.
\<close>

theorem C2_accept_after_close:
  "fst (calls [CloseCall, AcceptCall] fresh_listener quiet_world) =
     [Closed (Returns None), Accepted (Inl errSingleListen)]"
  by (simp add: fresh_listener_def quiet_world_def Accept_def Close_def Do_def)

text \<open>
  C2, amended. On a single-use listener built with a connection \<open>c\<close> and not yet used:
  if the first call to reach the \<^verbatim>\<open>Once\<close> is an \<^verbatim>\<open>Accept\<close>, it returns \<open>c\<close>
  inside a \<^verbatim>\<open>timeoutConn\<close>, and whatever calls follow, in whatever order they reach
  the \<^verbatim>\<open>Once\<close>, every later \<^verbatim>\<open>Accept\<close> returns \<^verbatim>\<open>errSingleListen\<close> and no later
  reply hands out the connection; if the first call to reach the \<^verbatim>\<open>Once\<close> is a
  \<^verbatim>\<open>Close\<close>, every \<^verbatim>\<open>Accept\<close> returns \<^verbatim>\<open>errSingleListen\<close> and no reply hands out
  the connection.
\<close>

theorem C2_accept_once:
  assumes "once s = False" and "conn s = Some c"
  shows "fst (calls (AcceptCall # cs) s w) =
           Accepted (Inr \<lparr>Conn = c, readTimeout = TCPReadTimeout w,
                          writeTimeout = TCPWriteTimeout w\<rparr>) # map spent cs
         \<and> (\<forall>i < length cs. cs ! i = AcceptCall \<longrightarrow>
               fst (calls (AcceptCall # cs) s w) ! Suc i = Accepted (Inl errSingleListen))
         \<and> filter (hands_out c) (tl (fst (calls (AcceptCall # cs) s w))) = []
         \<and> fst (calls (CloseCall # cs) s w) =
             Closed (Returns (close_result w c)) # map spent cs
         \<and> (\<forall>i < length cs. cs ! i = AcceptCall \<longrightarrow>
               fst (calls (CloseCall # cs) s w) ! Suc i = Accepted (Inl errSingleListen))
         \<and> filter (hands_out c) (fst (calls (CloseCall # cs) s w)) = []"
proof -
  have eq: "fst (calls (AcceptCall # cs) s w) =
      Accepted (Inr \<lparr>Conn = c, readTimeout = TCPReadTimeout w,
                     writeTimeout = TCPWriteTimeout w\<rparr>) # map spent cs"
    using assms by (simp add: calls_Accept_first del: calls.simps)
  have later: "\<forall>i < length cs. cs ! i = AcceptCall \<longrightarrow>
      fst (calls (AcceptCall # cs) s w) ! Suc i = Accepted (Inl errSingleListen)"
    by (simp add: eq del: calls.simps)
  have none: "filter (hands_out c) (tl (fst (calls (AcceptCall # cs) s w))) = []"
    by (simp add: eq hands_out_spent del: calls.simps)
  have ceq: "fst (calls (CloseCall # cs) s w) =
      Closed (Returns (close_result w c)) # map spent cs"
    using assms by (simp add: calls_Close_first del: calls.simps)
  have clater: "\<forall>i < length cs. cs ! i = AcceptCall \<longrightarrow>
      fst (calls (CloseCall # cs) s w) ! Suc i = Accepted (Inl errSingleListen)"
    by (simp add: ceq del: calls.simps)
  have cnone: "filter (hands_out c) (fst (calls (CloseCall # cs) s w)) = []"
    by (simp add: ceq hands_out_spent del: calls.simps)
  from eq later none ceq clater cnone show ?thesis by blast
qed

theorem C2_accept_once_witness:
  "once fresh_listener = False \<and> conn fresh_listener = Some 7
   \<and> fst (calls [AcceptCall, AcceptCall, CloseCall, AcceptCall] fresh_listener quiet_world) =
       [Accepted (Inr \<lparr>Conn = 7, readTimeout = 30000000000, writeTimeout = 30000000000\<rparr>),
        Accepted (Inl errSingleListen), Closed (Returns None), Accepted (Inl errSingleListen)]
   \<and> fst (calls [CloseCall, AcceptCall, CloseCall, AcceptCall] fresh_listener quiet_world) =
       [Closed (Returns None), Accepted (Inl errSingleListen), Closed (Returns None),
        Accepted (Inl errSingleListen)]"
  using C2_accept_once [of fresh_listener 7 "[AcceptCall, CloseCall, AcceptCall]" quiet_world]
  by (simp add: fresh_listener_def quiet_world_def Accept_def Close_def Do_def)

text \<open>
  C3, as the specification states it, fails in two ways. Where the connection's own
  \<^verbatim>\<open>Close\<close> fails, of two callers the one that fires the \<^verbatim>\<open>Once\<close> gets that error
  and the other gets nil. And on a listener whose \<^verbatim>\<open>Accept\<close> has already handed out
  the connection, two calls of \<^verbatim>\<open>Close\<close> do not close it at all.
\<close>

theorem C3_close_outcomes_differ:
  "fst (calls [CloseCall, CloseCall] fresh_listener failing_close_world) =
     [Closed (Returns (Some (OtherError False))), Closed (Returns None)]
   \<and> closes (snd (snd (calls [CloseCall, CloseCall] fresh_listener failing_close_world))) 7 = 1
   \<and> closes (snd (snd (calls [AcceptCall, CloseCall, CloseCall] fresh_listener quiet_world))) 7
       = 0"
  by (simp add: fresh_listener_def failing_close_world_def quiet_world_def Accept_def Close_def
      Do_def)

text \<open>
  C3, amended. On a single-use listener built with a connection \<open>c\<close> and not yet used,
  one or more calls of \<^verbatim>\<open>Close\<close> call the connection's \<^verbatim>\<open>Close\<close> exactly once; the
  caller that fires the \<^verbatim>\<open>Once\<close> gets the answer of the connection's \<^verbatim>\<open>Close\<close>
  (nil or its error) and every other caller gets nil.
\<close>

theorem C3_close_once:
  assumes "once s = False" and "conn s = Some c"
  shows "calls (replicate (Suc n) CloseCall) s w =
           (Closed (Returns (close_result w c)) # replicate n (Closed (Returns None)),
            s\<lparr>once := True\<rparr>,
            w\<lparr>closes := (closes w)(c := closes w c + 1)\<rparr>)"
  using assms by (simp add: calls_Close_first del: calls.simps)

theorem C3_close_once_witness:
  "once fresh_listener = False \<and> conn fresh_listener = Some 7
   \<and> fst (calls [CloseCall, CloseCall, CloseCall] fresh_listener quiet_world) =
       [Closed (Returns None), Closed (Returns None), Closed (Returns None)]
   \<and> closes (snd (snd (calls [CloseCall, CloseCall, CloseCall] fresh_listener quiet_world))) 7 = 1"
  using C3_close_once [of fresh_listener 7 2 quiet_world]
  by (simp add: fresh_listener_def quiet_world_def numeral_2_eq_2)

text \<open>
  C9. On a single-use listener built with a connection \<open>c\<close> and not yet used, in every
  run of \<^verbatim>\<open>Accept\<close> and \<^verbatim>\<open>Close\<close> calls the \<^verbatim>\<open>Once\<close> fires for the first call
  only: the number of replies handing out \<open>c\<close> plus the number of \<^verbatim>\<open>Close\<close> calls
  the connection receives is one (zero for the empty run). After a first \<^verbatim>\<open>Accept\<close>
  the connection is not closed by any later \<^verbatim>\<open>Close\<close>, each of which returns nil.
\<close>

theorem C9_gate_fires_once:
  assumes "once s = False" and "conn s = Some c"
  shows "length (filter (hands_out c) (fst (calls cs s w)))
           + closes (snd (snd (calls cs s w))) c
         = closes w c + (if cs = [] then 0 else 1)
       \<and> snd (snd (calls (AcceptCall # cs) s w)) = w
       \<and> (\<forall>i < length cs. cs ! i = CloseCall \<longrightarrow>
            fst (calls (AcceptCall # cs) s w) ! Suc i = Closed (Returns None))"
proof -
  have count: "length (filter (hands_out c) (fst (calls cs s w)))
           + closes (snd (snd (calls cs s w))) c
         = closes w c + (if cs = [] then 0 else 1)"
  proof (cases cs)
    case Nil
    then show ?thesis by simp
  next
    case (Cons a cs')
    show ?thesis
    proof (cases a)
      case AcceptCall
      then show ?thesis
        using assms Cons by (simp add: calls_Accept_first hands_out_spent del: calls.simps)
    next
      case CloseCall
      then show ?thesis
        using assms Cons by (simp add: calls_Close_first hands_out_spent del: calls.simps)
    qed
  qed
  have same: "snd (snd (calls (AcceptCall # cs) s w)) = w"
    using assms by (simp add: calls_Accept_first del: calls.simps)
  have nil: "\<forall>i < length cs. cs ! i = CloseCall \<longrightarrow>
            fst (calls (AcceptCall # cs) s w) ! Suc i = Closed (Returns None)"
    using assms by (simp add: calls_Accept_first del: calls.simps)
  from count same nil show ?thesis by blast
qed

theorem C9_gate_fires_once_witness:
  "once fresh_listener = False \<and> conn fresh_listener = Some 7
   \<and> fst (calls [AcceptCall, CloseCall, CloseCall] fresh_listener failing_close_world) =
       [Accepted (Inr \<lparr>Conn = 7, readTimeout = 30000000000, writeTimeout = 30000000000\<rparr>),
        Closed (Returns None), Closed (Returns None)]
   \<and> closes (snd (snd (calls [AcceptCall, CloseCall, CloseCall] fresh_listener
        failing_close_world))) 7 = 0"
  using C9_gate_fires_once [of fresh_listener 7 "[CloseCall, CloseCall]" failing_close_world]
  by (simp add: fresh_listener_def failing_close_world_def Accept_def Close_def Do_def)

section \<open>Properties of the connection with timeouts\<close>

lemma recording_sel:
  "SetReadDeadline (recording U) t (st, lg) =
     (fst (SetReadDeadline U t st), (snd (SetReadDeadline U t st), lg @ [SetReadDeadline_call t]))"
  "SetWriteDeadline (recording U) t (st, lg) =
     (fst (SetWriteDeadline U t st), (snd (SetWriteDeadline U t st), lg @ [SetWriteDeadline_call t]))"
  "Read (recording U) b (st, lg) = (fst (Read U b st), (snd (Read U b st), lg @ [Read_call b]))"
  "Write (recording U) b (st, lg) = (fst (Write U b st), (snd (Write U b st), lg @ [Write_call b]))"
  by (simp_all add: recording_def)

lemma Read_recorded:
  "timeoutConn_Read (recording U) c now b (st, lg) =
     (if 0 <s readTimeout c then
        (case SetReadDeadline U (time_Add now (readTimeout c)) st of
           (Some err, st') \<Rightarrow>
             ((0, Some err), (st', lg @ [SetReadDeadline_call (time_Add now (readTimeout c))]))
         | (None, st') \<Rightarrow>
             (fst (Read U b st'),
              (snd (Read U b st'),
               lg @ [SetReadDeadline_call (time_Add now (readTimeout c)), Read_call b])))
      else (fst (Read U b st), (snd (Read U b st), lg @ [Read_call b])))"
  by (simp add: timeoutConn_Read_def recording_sel split: prod.split option.split)

lemma Write_recorded:
  "timeoutConn_Write (recording U) c now b (st, lg) =
     (if 0 <s writeTimeout c then
        (case SetWriteDeadline U (time_Add now (writeTimeout c)) st of
           (Some err, st') \<Rightarrow>
             ((0, Some err), (st', lg @ [SetWriteDeadline_call (time_Add now (writeTimeout c))]))
         | (None, st') \<Rightarrow>
             (fst (Write U b st'),
              (snd (Write U b st'),
               lg @ [SetWriteDeadline_call (time_Add now (writeTimeout c)), Write_call b])))
      else (fst (Write U b st), (snd (Write U b st), lg @ [Write_call b])))"
  by (simp add: timeoutConn_Write_def recording_sel split: prod.split option.split)

text \<open>
  C7. Whatever the underlying connection is: a \<^verbatim>\<open>Read\<close> through the wrapper with
  \<open>readTimeout > 0\<close> first calls \<^verbatim>\<open>SetReadDeadline\<close> with \<open>now + readTimeout\<close>; if
  that fails, the wrapper returns \<open>0\<close> and that error and calls nothing else; if it
  succeeds, the wrapper calls the underlying \<^verbatim>\<open>Read\<close> with the same buffer next and
  returns its results. With \<open>readTimeout = 0\<close> the only call is the underlying
  \<^verbatim>\<open>Read\<close>, whose results are returned. The same holds for \<^verbatim>\<open>Write\<close>,
  \<open>writeTimeout\<close> and \<^verbatim>\<open>SetWriteDeadline\<close>.
\<close>

theorem C7_deadline_then_io:
  "(0 <s readTimeout c \<longrightarrow>
      (\<forall>err st'. SetReadDeadline U (time_Add now (readTimeout c)) st = (Some err, st') \<longrightarrow>
         timeoutConn_Read (recording U) c now b (st, lg) =
           ((0, Some err), (st', lg @ [SetReadDeadline_call (time_Add now (readTimeout c))])))
      \<and> (\<forall>st'. SetReadDeadline U (time_Add now (readTimeout c)) st = (None, st') \<longrightarrow>
         timeoutConn_Read (recording U) c now b (st, lg) =
           (fst (Read U b st'),
            (snd (Read U b st'),
             lg @ [SetReadDeadline_call (time_Add now (readTimeout c)), Read_call b]))))
   \<and> (readTimeout c = 0 \<longrightarrow>
         timeoutConn_Read (recording U) c now b (st, lg) =
           (fst (Read U b st), (snd (Read U b st), lg @ [Read_call b])))
   \<and> (0 <s writeTimeout c \<longrightarrow>
      (\<forall>err st'. SetWriteDeadline U (time_Add now (writeTimeout c)) st = (Some err, st') \<longrightarrow>
         timeoutConn_Write (recording U) c now b (st, lg) =
           ((0, Some err), (st', lg @ [SetWriteDeadline_call (time_Add now (writeTimeout c))])))
      \<and> (\<forall>st'. SetWriteDeadline U (time_Add now (writeTimeout c)) st = (None, st') \<longrightarrow>
         timeoutConn_Write (recording U) c now b (st, lg) =
           (fst (Write U b st'),
            (snd (Write U b st'),
             lg @ [SetWriteDeadline_call (time_Add now (writeTimeout c)), Write_call b]))))
   \<and> (writeTimeout c = 0 \<longrightarrow>
         timeoutConn_Write (recording U) c now b (st, lg) =
           (fst (Write U b st), (snd (Write U b st), lg @ [Write_call b])))"
proof -
  have r1: "0 <s readTimeout c \<longrightarrow>
      (\<forall>err st'. SetReadDeadline U (time_Add now (readTimeout c)) st = (Some err, st') \<longrightarrow>
         timeoutConn_Read (recording U) c now b (st, lg) =
           ((0, Some err), (st', lg @ [SetReadDeadline_call (time_Add now (readTimeout c))])))
      \<and> (\<forall>st'. SetReadDeadline U (time_Add now (readTimeout c)) st = (None, st') \<longrightarrow>
         timeoutConn_Read (recording U) c now b (st, lg) =
           (fst (Read U b st'),
            (snd (Read U b st'),
             lg @ [SetReadDeadline_call (time_Add now (readTimeout c)), Read_call b])))"
    by (simp add: Read_recorded)
  have r2: "readTimeout c = 0 \<longrightarrow>
         timeoutConn_Read (recording U) c now b (st, lg) =
           (fst (Read U b st), (snd (Read U b st), lg @ [Read_call b]))"
    by (simp add: Read_recorded)
  have w1: "0 <s writeTimeout c \<longrightarrow>
      (\<forall>err st'. SetWriteDeadline U (time_Add now (writeTimeout c)) st = (Some err, st') \<longrightarrow>
         timeoutConn_Write (recording U) c now b (st, lg) =
           ((0, Some err), (st', lg @ [SetWriteDeadline_call (time_Add now (writeTimeout c))])))
      \<and> (\<forall>st'. SetWriteDeadline U (time_Add now (writeTimeout c)) st = (None, st') \<longrightarrow>
         timeoutConn_Write (recording U) c now b (st, lg) =
           (fst (Write U b st'),
            (snd (Write U b st'),
             lg @ [SetWriteDeadline_call (time_Add now (writeTimeout c)), Write_call b])))"
    by (simp add: Write_recorded)
  have w2: "writeTimeout c = 0 \<longrightarrow>
         timeoutConn_Write (recording U) c now b (st, lg) =
           (fst (Write U b st), (snd (Write U b st), lg @ [Write_call b]))"
    by (simp add: Write_recorded)
  from r1 r2 w1 w2 show ?thesis by blast
qed

theorem C7_deadline_then_io_witness:
  "0 <s readTimeout tc_read_only \<and> writeTimeout tc_read_only = 0
   \<and> SetReadDeadline (pipe_conn None) (time_Add 1000 (readTimeout tc_read_only)) 5 = (None, 5)
   \<and> timeoutConn_Read (recording (pipe_conn None)) tc_read_only 1000 [0, 0, 0] (5, []) =
        ((3, None), (2, [SetReadDeadline_call 50001000, Read_call [0, 0, 0]]))
   \<and> timeoutConn_Write (recording (pipe_conn None)) tc_read_only 1000 [1, 2] (5, []) =
        ((2, None), (7, [Write_call [1, 2]]))
   \<and> SetReadDeadline (pipe_conn (Some (OtherError False))) (time_Add 1000 (readTimeout tc_read_only)) 5
        = (Some (OtherError False), 5)
   \<and> timeoutConn_Read (recording (pipe_conn (Some (OtherError False)))) tc_read_only 1000 [0, 0, 0] (5, []) =
        ((0, Some (OtherError False)), (5, [SetReadDeadline_call 50001000]))
   \<and> readTimeout tc_write_only = 0 \<and> 0 <s writeTimeout tc_write_only
   \<and> timeoutConn_Read (recording (pipe_conn None)) tc_write_only 1000 [0, 0, 0] (5, []) =
        ((3, None), (2, [Read_call [0, 0, 0]]))
   \<and> SetWriteDeadline (pipe_conn None) (time_Add 1000 (writeTimeout tc_write_only)) 5 = (None, 5)
   \<and> timeoutConn_Write (recording (pipe_conn None)) tc_write_only 1000 [1, 2] (5, []) =
        ((2, None), (7, [SetWriteDeadline_call 50001000, Write_call [1, 2]]))
   \<and> SetWriteDeadline (pipe_conn (Some (OtherError False))) (time_Add 1000 (writeTimeout tc_write_only)) 5
        = (Some (OtherError False), 5)
   \<and> timeoutConn_Write (recording (pipe_conn (Some (OtherError False)))) tc_write_only 1000 [1, 2] (5, []) =
        ((0, Some (OtherError False)), (5, [SetWriteDeadline_call 50001000]))"
  using C7_deadline_then_io [of tc_read_only "pipe_conn None" 1000 5 "[0, 0, 0]" "[]"]
    C7_deadline_then_io [of tc_read_only "pipe_conn None" 1000 5 "[1, 2]" "[]"]
    C7_deadline_then_io [of tc_read_only "pipe_conn (Some (OtherError False))" 1000 5 "[0, 0, 0]" "[]"]
    C7_deadline_then_io [of tc_write_only "pipe_conn None" 1000 5 "[0, 0, 0]" "[]"]
    C7_deadline_then_io [of tc_write_only "pipe_conn None" 1000 5 "[1, 2]" "[]"]
    C7_deadline_then_io [of tc_write_only "pipe_conn (Some (OtherError False))" 1000 5 "[1, 2]" "[]"]
  by (simp add: tc_read_only_def tc_write_only_def pipe_conn_def word_sless_alt time_Add_def)

text \<open>
  C10. \<^verbatim>\<open>Accept\<close> on an unused listener holding \<open>c1\<close> returns a \<^verbatim>\<open>timeoutConn\<close>
  around \<open>c1\<close> whose two timeouts are the values of \<^verbatim>\<open>TCPReadTimeout\<close> and
  \<^verbatim>\<open>TCPWriteTimeout\<close> at that call. After the variables are set to other values
  \<open>r\<close> and \<open>t\<close>, an \<^verbatim>\<open>Accept\<close> on another listener returns a wrapper with
  \<open>r\<close> and \<open>t\<close>, while reads and writes through the first wrapper go on setting
  deadlines from the values it was built with.
\<close>

theorem C10_timeouts_copied_at_accept:
  assumes "once s1 = False" and "conn s1 = Some c1" and "once s2 = False" and "conn s2 = Some c2"
  shows "fst (Accept s1 w) =
           Inr \<lparr>Conn = c1, readTimeout = TCPReadTimeout w, writeTimeout = TCPWriteTimeout w\<rparr>
       \<and> fst (Accept s2 (w\<lparr>TCPReadTimeout := r, TCPWriteTimeout := t\<rparr>)) =
           Inr \<lparr>Conn = c2, readTimeout = r, writeTimeout = t\<rparr>
       \<and> (\<forall>tc. fst (Accept s1 w) = Inr tc \<and> 0 <s TCPReadTimeout w \<longrightarrow>
             hd (snd (snd (timeoutConn_Read (recording U) tc now b (st, [])))) =
               SetReadDeadline_call (time_Add now (TCPReadTimeout w)))
       \<and> (\<forall>tc. fst (Accept s1 w) = Inr tc \<and> 0 <s TCPWriteTimeout w \<longrightarrow>
             hd (snd (snd (timeoutConn_Write (recording U) tc now b (st, [])))) =
               SetWriteDeadline_call (time_Add now (TCPWriteTimeout w)))"
proof -
  have a1: "fst (Accept s1 w) =
           Inr \<lparr>Conn = c1, readTimeout = TCPReadTimeout w, writeTimeout = TCPWriteTimeout w\<rparr>"
    using assms by (simp add: Accept_fresh)
  have a2: "fst (Accept s2 (w\<lparr>TCPReadTimeout := r, TCPWriteTimeout := t\<rparr>)) =
           Inr \<lparr>Conn = c2, readTimeout = r, writeTimeout = t\<rparr>"
    using assms by (simp add: Accept_fresh)
  have rd: "\<forall>tc. fst (Accept s1 w) = Inr tc \<and> 0 <s TCPReadTimeout w \<longrightarrow>
             hd (snd (snd (timeoutConn_Read (recording U) tc now b (st, [])))) =
               SetReadDeadline_call (time_Add now (TCPReadTimeout w))"
    by (auto simp add: a1 Read_recorded split: prod.split option.split)
  have wr: "\<forall>tc. fst (Accept s1 w) = Inr tc \<and> 0 <s TCPWriteTimeout w \<longrightarrow>
             hd (snd (snd (timeoutConn_Write (recording U) tc now b (st, [])))) =
               SetWriteDeadline_call (time_Add now (TCPWriteTimeout w))"
    by (auto simp add: a1 Write_recorded split: prod.split option.split)
  from a1 a2 rd wr show ?thesis by blast
qed

theorem C10_timeouts_copied_at_accept_witness:
  "once fresh_listener = False \<and> conn fresh_listener = Some 7
   \<and> once second_listener = False \<and> conn second_listener = Some 8
   \<and> fst (Accept fresh_listener quiet_world) =
       Inr \<lparr>Conn = 7, readTimeout = 30000000000, writeTimeout = 30000000000\<rparr>
   \<and> fst (Accept second_listener (quiet_world\<lparr>TCPReadTimeout := 0, TCPWriteTimeout := 5\<rparr>)) =
       Inr \<lparr>Conn = 8, readTimeout = 0, writeTimeout = 5\<rparr>
   \<and> 0 <s TCPReadTimeout quiet_world
   \<and> hd (snd (snd (timeoutConn_Read (recording (pipe_conn None))
        \<lparr>Conn = 7, readTimeout = 30000000000, writeTimeout = 30000000000\<rparr> 1000 [0] (5, [])))) =
       SetReadDeadline_call 30000001000"
  using C10_timeouts_copied_at_accept [where ?s1.0 = fresh_listener and ?c1.0 = 7
      and ?s2.0 = second_listener and ?c2.0 = 8 and w = quiet_world and r = 0 and t = 5
      and U = "pipe_conn None" and now = 1000 and b = "[0]" and st = 5]
  by (simp add: fresh_listener_def second_listener_def quiet_world_def word_sless_alt
      time_Add_def Accept_def Do_def)

section \<open>Properties of wait groups\<close>

lemma wg_Done_positive: "0 <s wg \<Longrightarrow> wg_Done wg = (wg - 1, False)"
proof -
  assume "0 <s wg"
  then have p: "0 < sint wg" by (simp add: word_sless_alt)
  have u: "sint wg < 2 ^ 31" using sint_lt [of wg] by simp
  have "sint (wg - 1) = signed_take_bit 31 (sint wg - 1)"
    by (simp add: sint_word_ariths)
  also have "\<dots> = sint wg - 1"
    using p u by (intro signed_take_bit_int_eq_self) simp_all
  finally have "\<not> wg - 1 <s 0" using p by (simp add: word_sless_alt)
  then show ?thesis by (simp add: wg_Done_def wg_Add_def)
qed

section \<open>Properties of the accept loop\<close>

lemma loop_body_Shutdown: "Shutdown (snd (loop_body l p s)) = Shutdown s"
  by (simp add: loop_body_def Let_def wg_Add_def
      split: listener.split option.split sum.split go.split)

lemma loop_body_Returned:
  "fst (loop_body l p s) = Leave Returned \<Longrightarrow> \<exists>err. Accept_res p = Inl err \<and> IsErrClosing err"
  by (simp add: loop_body_def Let_def wg_Add_def
      split: listener.splits option.splits sum.splits go.splits if_splits)

lemma loop_body_requestWG:
  "requestWG (snd (loop_body l p s)) =
     requestWG s
     + (if l = TCPListener \<and> SetDeadline_err p = None \<and> \<not> isl (Accept_res p) then 1 else 0)"
  by (simp add: loop_body_def Let_def wg_Add_def
      split: listener.split option.split sum.split go.split)

lemma acceptLoop_for_Shutdown: "Shutdown s \<Longrightarrow> acceptLoop_for l ps s = (Some Returned, s)"
  by (cases ps) simp_all

lemma acceptLoop_for_after_signal:
  "signal p \<Longrightarrow> acceptLoop_for l (ps @ p # qs) s = acceptLoop_for l (ps @ [p]) s"
proof (induction ps arbitrary: s)
  case Nil
  then show ?case
    by (simp add: acceptLoop_for_Shutdown split: prod.split flow.split)
next
  case (Cons a ps)
  then show ?case
    by (simp split: prod.split flow.split)
qed

lemma acceptLoop_for_signal_leaves:
  "signal p \<Longrightarrow> fst (acceptLoop_for l (ps @ [p]) s) \<noteq> None"
proof (induction ps arbitrary: s)
  case Nil
  then show ?case
    by (simp split: prod.split flow.split)
next
  case (Cons a ps)
  then show ?case
    by (simp split: prod.split flow.split)
qed

lemma acceptLoop_for_stays:
  "\<not> Shutdown s \<Longrightarrow>
   \<forall>p \<in> set ps. \<not> signal p \<and> (\<forall>err. Accept_res p = Inl err \<longrightarrow> \<not> IsErrClosing err) \<Longrightarrow>
   fst (acceptLoop_for l ps s) \<noteq> Some Returned"
proof (induction ps arbitrary: s)
  case Nil
  then show ?case by simp
next
  case (Cons p ps)
  obtain f s' where body: "loop_body l p s = (f, s')" by (cases "loop_body l p s")
  have open': "\<not> Shutdown s'"
    using loop_body_Shutdown [of l p s] body Cons.prems(1) by simp
  have quiet: "\<not> signal p" using Cons.prems(2) by simp
  show ?case
  proof (cases f)
    case Continue
    have "fst (acceptLoop_for l ps (s'\<lparr>Shutdown := Shutdown s' \<or> signal p\<rparr>)) \<noteq> Some Returned"
      using Cons.IH [of "s'\<lparr>Shutdown := Shutdown s' \<or> signal p\<rparr>"] open' quiet Cons.prems(2)
      by simp
    then show ?thesis using Cons.prems(1) body Continue by simp
  next
    case (Leave x)
    have "x \<noteq> Returned"
    proof
      assume "x = Returned"
      then have "fst (loop_body l p s) = Leave Returned" using body Leave by simp
      then obtain err where "Accept_res p = Inl err" and "IsErrClosing err"
        using loop_body_Returned by blast
      then show False using Cons.prems(2) by simp
    qed
    then show ?thesis using Cons.prems(1) body Leave by simp
  qed
qed

lemma acceptLoop_None: "fst (acceptLoop l ps s) = None \<longleftrightarrow> fst (acceptLoop_for l ps s) = None"
  by (simp add: acceptLoop_def split: prod.split option.split leave.split)

lemma acceptLoop_Returned:
  "fst (acceptLoop l ps s) = Some Returned \<Longrightarrow> fst (acceptLoop_for l ps s) = Some Returned"
  by (simp add: acceptLoop_def split: prod.splits option.splits leave.splits if_splits)

lemma accepts_loop_body:
  "accepts (trace (snd (loop_body l p s))) \<le> Suc (accepts (trace s))"
  by (simp add: loop_body_def Let_def wg_Add_def accepts_def
      split: listener.split option.split sum.split go.split)

lemma accepts_acceptLoop_for:
  "accepts (trace (snd (acceptLoop_for l ps s))) \<le> accepts (trace s) + length ps"
proof (induction ps arbitrary: s)
  case Nil
  then show ?case by simp
next
  case (Cons p ps)
  obtain f s' where body: "loop_body l p s = (f, s')" by (cases "loop_body l p s")
  have le: "accepts (trace s') \<le> Suc (accepts (trace s))"
    using accepts_loop_body [of l p s] body by simp
  show ?case
  proof (cases "Shutdown s")
    case True
    then show ?thesis by simp
  next
    case False
    show ?thesis
    proof (cases f)
      case Continue
      have "accepts (trace (snd (acceptLoop_for l ps (s'\<lparr>Shutdown := Shutdown s' \<or> signal p\<rparr>))))
              \<le> accepts (trace s') + length ps"
        using Cons.IH [of "s'\<lparr>Shutdown := Shutdown s' \<or> signal p\<rparr>"] by simp
      then show ?thesis using False body Continue le by simp
    next
      case (Leave x)
      then show ?thesis using False body le by simp
    qed
  qed
qed

lemma trace_acceptLoop: "trace (snd (acceptLoop l ps s)) = trace (snd (acceptLoop_for l ps s))"
  by (simp add: acceptLoop_def wg_Done_def wg_Add_def split: prod.split option.split leave.split)

text \<open>
  C4. When \<^verbatim>\<open>Shutdown\<close> is closed at the check at the top of the loop,
  \<^verbatim>\<open>acceptLoop\<close> returns there, with no further call on the listener (\<^verbatim>\<open>acceptWG\<close>
  is positive, as after the \<^verbatim>\<open>acceptWG.Add(1)\<close> of \<^verbatim>\<open>ListenAndServe\<close>, so that the
  deferred \<^verbatim>\<open>Done()\<close> does not panic). When the channel
  is closed during a pass \<open>p\<close>, the loop is left by the end of the check that follows
  \<open>p\<close>: the passes \<open>qs\<close> that the surroundings would offer after \<open>p\<close> are
  never run, so \<^verbatim>\<open>Accept\<close> is called at most once per pass up to \<open>p\<close>; and if \<open>p\<close>
  itself runs to its end, the loop returns at that check. Conversely, while the channel
  stays open and no \<^verbatim>\<open>Accept\<close> fails with the listener closed, the loop does not
  return.
\<close>

theorem C4_shutdown_stops_loop:
  "(Shutdown s \<and> 0 <s acceptWG s \<longrightarrow>
      acceptLoop l ps s = (Some Returned, s\<lparr>acceptWG := acceptWG s - 1\<rparr>))
   \<and> (signal p \<longrightarrow>
        acceptLoop l (ps @ p # qs) s = acceptLoop l (ps @ [p]) s
        \<and> fst (acceptLoop l (ps @ p # qs) s) \<noteq> None
        \<and> accepts (trace (snd (acceptLoop l (ps @ p # qs) s)))
            \<le> accepts (trace s) + Suc (length ps))
   \<and> (\<not> Shutdown s \<and> signal p \<and> fst (loop_body l p s) = Continue \<and> 0 <s acceptWG s \<longrightarrow>
        fst (acceptLoop l (p # qs) s) = Some Returned
        \<and> trace (snd (acceptLoop l (p # qs) s)) = trace (snd (loop_body l p s)))
   \<and> (\<not> Shutdown s
        \<and> (\<forall>p \<in> set ps. \<not> signal p \<and> (\<forall>err. Accept_res p = Inl err \<longrightarrow> \<not> IsErrClosing err))
       \<longrightarrow> fst (acceptLoop l ps s) \<noteq> Some Returned)"
proof -
  have a: "Shutdown s \<and> 0 <s acceptWG s \<longrightarrow>
      acceptLoop l ps s = (Some Returned, s\<lparr>acceptWG := acceptWG s - 1\<rparr>)"
  proof
    assume h: "Shutdown s \<and> 0 <s acceptWG s"
    then have "acceptLoop_for l ps s = (Some Returned, s)"
      by (simp add: acceptLoop_for_Shutdown)
    then show "acceptLoop l ps s = (Some Returned, s\<lparr>acceptWG := acceptWG s - 1\<rparr>)"
      using h by (simp add: acceptLoop_def wg_Done_positive)
  qed
  have b: "signal p \<longrightarrow>
        acceptLoop l (ps @ p # qs) s = acceptLoop l (ps @ [p]) s
        \<and> fst (acceptLoop l (ps @ p # qs) s) \<noteq> None
        \<and> accepts (trace (snd (acceptLoop l (ps @ p # qs) s)))
            \<le> accepts (trace s) + Suc (length ps)"
  proof
    assume sig: "signal p"
    have eq: "acceptLoop l (ps @ p # qs) s = acceptLoop l (ps @ [p]) s"
      using acceptLoop_for_after_signal [OF sig, of l ps qs s] by (simp only: acceptLoop_def)
    have left: "fst (acceptLoop l (ps @ [p]) s) \<noteq> None"
      using sig by (simp add: acceptLoop_None acceptLoop_for_signal_leaves)
    have "accepts (trace (snd (acceptLoop l (ps @ [p]) s))) \<le> accepts (trace s) + length (ps @ [p])"
      unfolding trace_acceptLoop by (rule accepts_acceptLoop_for)
    then have few: "accepts (trace (snd (acceptLoop l (ps @ [p]) s)))
        \<le> accepts (trace s) + Suc (length ps)"
      by simp
    show "acceptLoop l (ps @ p # qs) s = acceptLoop l (ps @ [p]) s
        \<and> fst (acceptLoop l (ps @ p # qs) s) \<noteq> None
        \<and> accepts (trace (snd (acceptLoop l (ps @ p # qs) s)))
            \<le> accepts (trace s) + Suc (length ps)"
      using eq left few by simp
  qed
  have c: "\<not> Shutdown s \<and> signal p \<and> fst (loop_body l p s) = Continue \<and> 0 <s acceptWG s \<longrightarrow>
        fst (acceptLoop l (p # qs) s) = Some Returned
        \<and> trace (snd (acceptLoop l (p # qs) s)) = trace (snd (loop_body l p s))"
  proof
    assume h: "\<not> Shutdown s \<and> signal p \<and> fst (loop_body l p s) = Continue \<and> 0 <s acceptWG s"
    obtain s' where body: "loop_body l p s = (Continue, s')"
      using h by (cases "loop_body l p s") simp
    have wg: "acceptWG s' = acceptWG s"
      using body
      by (auto simp add: loop_body_def Let_def wg_Add_def
          split: listener.splits option.splits sum.splits go.splits if_splits)
    show "fst (acceptLoop l (p # qs) s) = Some Returned
        \<and> trace (snd (acceptLoop l (p # qs) s)) = trace (snd (loop_body l p s))"
      using h body wg
      by (simp add: acceptLoop_def acceptLoop_for_Shutdown wg_Done_positive)
  qed
  have d: "\<not> Shutdown s
        \<and> (\<forall>p \<in> set ps. \<not> signal p \<and> (\<forall>err. Accept_res p = Inl err \<longrightarrow> \<not> IsErrClosing err))
       \<longrightarrow> fst (acceptLoop l ps s) \<noteq> Some Returned"
    using acceptLoop_for_stays [of s ps l] acceptLoop_Returned [of l ps s] by blast
  from a b c d show ?thesis by blast
qed

lemmas loop_eval =
  acceptLoop_def loop_body_def Let_def wg_Add_def wg_Done_def word_sless_alt server0_def
  timeout_pass_def
  conn_pass_def signal_pass_def time_Add_def breakAcceptInterval_def accepts_def

theorem C4_shutdown_stops_loop_witness:
  "Shutdown (server0\<lparr>Shutdown := True\<rparr>) \<and> 0 <s acceptWG (server0\<lparr>Shutdown := True\<rparr>)
   \<and> acceptLoop TCPListener [conn_pass 7] (server0\<lparr>Shutdown := True\<rparr>) =
       (Some Returned, \<lparr>Shutdown = True, acceptWG = 0, requestWG = 0, trace = []\<rparr>)
   \<and> signal signal_pass \<and> fst (loop_body TCPListener signal_pass server0) = Continue
   \<and> acceptLoop TCPListener [conn_pass 7, signal_pass, conn_pass 8] server0 =
       (Some Returned,
        \<lparr>Shutdown = True, acceptWG = 0, requestWG = 1,
         trace = [SetDeadline 100000000, Accept_call, Serve 7, SetDeadline 100000000, Accept_call]\<rparr>)
   \<and> acceptLoop TCPListener [signal_pass, conn_pass 8] server0 =
       (Some Returned,
        \<lparr>Shutdown = True, acceptWG = 0, requestWG = 0,
         trace = [SetDeadline 100000000, Accept_call]\<rparr>)
   \<and> \<not> Shutdown server0
   \<and> fst (acceptLoop TCPListener [timeout_pass, conn_pass 7] server0) = None"
  using C4_shutdown_stops_loop [of "server0\<lparr>Shutdown := True\<rparr>" TCPListener "[conn_pass 7]"
      signal_pass "[]"]
    C4_shutdown_stops_loop [of server0 TCPListener "[conn_pass 7]" signal_pass "[conn_pass 8]"]
    C4_shutdown_stops_loop [of server0 TCPListener "[]" signal_pass "[conn_pass 8]"]
    C4_shutdown_stops_loop [of server0 TCPListener "[timeout_pass, conn_pass 7]" timeout_pass "[]"]
  by (simp add: loop_eval)

text \<open>
  C6. In a pass of the loop (the deadline set without error): an \<^verbatim>\<open>Accept\<close> error
  that is a timeout and not "closed" continues the loop; an \<^verbatim>\<open>Accept\<close> error for
  which \<^verbatim>\<open>IsErrClosing\<close> holds makes the loop return; any other \<^verbatim>\<open>Accept\<close>
  error ends the process, through \<^verbatim>\<open>log.Fatalln\<close> when it is a \<^verbatim>\<open>*net.OpError\<close>
  and through the panic of the type assertion otherwise. After a successful
  \<^verbatim>\<open>Accept\<close> the loop runs \<^verbatim>\<open>requestWG.Add(1)\<close>. If that call panics (the
  32-bit counter it leaves is negative, as when the counter was \<open>-2\<close> or less or was
  \<open>2147483647\<close>), the loop is left by the panic and \<^verbatim>\<open>srv.Serve\<close> is not called.
  Otherwise \<^verbatim>\<open>srv.Serve\<close> is called, and its returning \<^verbatim>\<open>errSingleListen\<close>
  continues the loop while any other error it returns ends the process through
  \<^verbatim>\<open>log.Fatalln\<close>. To continue is to run the next pass; to leave is to end the loop
  with that outcome.
\<close>

theorem C6_error_classes:
  "(SetDeadline_err p = None \<and> Accept_res p = Inl err \<and> \<not> IsErrClosing err
      \<and> OpError_Timeout err = Returns True \<longrightarrow>
        fst (loop_body TCPListener p s) = Continue)
   \<and> (SetDeadline_err p = None \<and> Accept_res p = Inl err \<and> IsErrClosing err \<longrightarrow>
        fst (loop_body TCPListener p s) = Leave Returned)
   \<and> (SetDeadline_err p = None \<and> Accept_res p = Inl err \<and> \<not> IsErrClosing err
      \<and> OpError_Timeout err \<noteq> Returns True \<longrightarrow>
        fst (loop_body TCPListener p s) =
          (if OpError_Timeout err = Panics then Leave Panicked else Leave (Fatal err)))
   \<and> (SetDeadline_err p = None \<and> Accept_res p = Inr c \<and> requestWG s + 1 <s 0 \<longrightarrow>
        fst (loop_body TCPListener p s) = Leave Panicked
        \<and> trace (snd (loop_body TCPListener p s)) =
            trace s @ [SetDeadline (time_Add (clock p) breakAcceptInterval), Accept_call])
   \<and> (SetDeadline_err p = None \<and> Accept_res p = Inr c \<and> \<not> requestWG s + 1 <s 0 \<longrightarrow>
        trace (snd (loop_body TCPListener p s)) =
            trace s @ [SetDeadline (time_Add (clock p) breakAcceptInterval), Accept_call, Serve c])
   \<and> (SetDeadline_err p = None \<and> Accept_res p = Inr c \<and> \<not> requestWG s + 1 <s 0
      \<and> Serve_err p = Some errSingleListen \<longrightarrow>
        fst (loop_body TCPListener p s) = Continue)
   \<and> (SetDeadline_err p = None \<and> Accept_res p = Inr c \<and> \<not> requestWG s + 1 <s 0
      \<and> Serve_err p = Some err \<and> err \<noteq> errSingleListen \<longrightarrow>
        fst (loop_body TCPListener p s) = Leave (Fatal err))
   \<and> (\<not> Shutdown s \<and> fst (loop_body l p s) = Continue \<longrightarrow>
        acceptLoop_for l (p # ps) s =
          acceptLoop_for l ps (snd (loop_body l p s)\<lparr>Shutdown := signal p\<rparr>))
   \<and> (\<not> Shutdown s \<and> fst (loop_body l p s) = Leave x \<longrightarrow>
        fst (acceptLoop_for l (p # ps) s) = Some x)"
proof -
  have c1: "SetDeadline_err p = None \<and> Accept_res p = Inl err \<and> \<not> IsErrClosing err
      \<and> OpError_Timeout err = Returns True \<longrightarrow>
        fst (loop_body TCPListener p s) = Continue"
    by (simp add: loop_body_def Let_def)
  have c2: "SetDeadline_err p = None \<and> Accept_res p = Inl err \<and> IsErrClosing err \<longrightarrow>
        fst (loop_body TCPListener p s) = Leave Returned"
    by (simp add: loop_body_def Let_def)
  have c3: "SetDeadline_err p = None \<and> Accept_res p = Inl err \<and> \<not> IsErrClosing err
      \<and> OpError_Timeout err \<noteq> Returns True \<longrightarrow>
        fst (loop_body TCPListener p s) =
          (if OpError_Timeout err = Panics then Leave Panicked else Leave (Fatal err))"
    by (simp add: loop_body_def Let_def split: go.split)
  have p1: "SetDeadline_err p = None \<and> Accept_res p = Inr c \<and> requestWG s + 1 <s 0 \<longrightarrow>
        fst (loop_body TCPListener p s) = Leave Panicked
        \<and> trace (snd (loop_body TCPListener p s)) =
            trace s @ [SetDeadline (time_Add (clock p) breakAcceptInterval), Accept_call]"
    by (simp add: loop_body_def Let_def wg_Add_def)
  have p2: "SetDeadline_err p = None \<and> Accept_res p = Inr c \<and> \<not> requestWG s + 1 <s 0 \<longrightarrow>
        trace (snd (loop_body TCPListener p s)) =
            trace s @ [SetDeadline (time_Add (clock p) breakAcceptInterval), Accept_call, Serve c]"
    by (simp add: loop_body_def Let_def wg_Add_def split: option.split)
  have c4: "SetDeadline_err p = None \<and> Accept_res p = Inr c \<and> \<not> requestWG s + 1 <s 0
      \<and> Serve_err p = Some errSingleListen \<longrightarrow>
        fst (loop_body TCPListener p s) = Continue"
    by (simp add: loop_body_def Let_def wg_Add_def)
  have c5: "SetDeadline_err p = None \<and> Accept_res p = Inr c \<and> \<not> requestWG s + 1 <s 0
      \<and> Serve_err p = Some err \<and> err \<noteq> errSingleListen \<longrightarrow>
        fst (loop_body TCPListener p s) = Leave (Fatal err)"
    by (simp add: loop_body_def Let_def wg_Add_def)
  have c6: "\<not> Shutdown s \<and> fst (loop_body l p s) = Continue \<longrightarrow>
        acceptLoop_for l (p # ps) s =
          acceptLoop_for l ps (snd (loop_body l p s)\<lparr>Shutdown := signal p\<rparr>)"
    using loop_body_Shutdown [of l p s]
    by (cases "loop_body l p s") auto
  have c7: "\<not> Shutdown s \<and> fst (loop_body l p s) = Leave x \<longrightarrow>
        fst (acceptLoop_for l (p # ps) s) = Some x"
    by (cases "loop_body l p s") auto
  from c1 c2 c3 p1 p2 c4 c5 c6 c7 show ?thesis by blast
qed

theorem C6_error_classes_witness:
  "fst (acceptLoop TCPListener [timeout_pass] server0) = None
   \<and> accepts (trace (snd (acceptLoop TCPListener [timeout_pass, timeout_pass] server0))) = 2
   \<and> acceptLoop TCPListener [closing_pass, timeout_pass] server0 =
       (Some Returned,
        \<lparr>Shutdown = False, acceptWG = 0, requestWG = 0,
         trace = [SetDeadline 100000000, Accept_call]\<rparr>)
   \<and> fst (acceptLoop TCPListener [refused_pass, timeout_pass] server0) =
       Some (Fatal (OpError False False))
   \<and> fst (acceptLoop TCPListener [strange_pass, timeout_pass] server0) = Some Panicked
   \<and> fst (acceptLoop TCPListener [conn_pass 7] server0) = None
   \<and> accepts (trace (snd (acceptLoop TCPListener [conn_pass 7, conn_pass 8] server0))) = 2
   \<and> fst (acceptLoop TCPListener [unserved_pass, timeout_pass] server0) =
       Some (Fatal (OtherError False))
   \<and> requestWG full_server + 1 <s 0
   \<and> acceptLoop TCPListener [conn_pass 7, timeout_pass] full_server =
       (Some Panicked,
        \<lparr>Shutdown = False, acceptWG = 0, requestWG = - 2147483648,
         trace = [SetDeadline 100000000, Accept_call]\<rparr>)"
  using C6_error_classes [where p = timeout_pass and err = "OpError False True" and s = server0 and c = 7
      and l = TCPListener and x = "Returned" and ps = "[]"]
    C6_error_classes [where p = closing_pass and err = "OpError True False" and s = server0 and c = 7
      and l = TCPListener and x = "Returned" and ps = "[timeout_pass]"]
    C6_error_classes [where p = refused_pass and err = "OpError False False" and s = server0 and c = 7
      and l = TCPListener and x = "Fatal (OpError False False)" and ps = "[timeout_pass]"]
    C6_error_classes [where p = strange_pass and err = "OtherError False" and s = server0 and c = 7
      and l = TCPListener and x = "Panicked" and ps = "[timeout_pass]"]
    C6_error_classes [where p = "conn_pass 7" and err = "OtherError False" and s = server0 and c = 7
      and l = TCPListener and x = "Returned" and ps = "[]"]
    C6_error_classes [where p = unserved_pass and err = "OtherError False" and s = server0 and c = 7
      and l = TCPListener and x = "Fatal (OtherError False)" and ps = "[timeout_pass]"]
    C6_error_classes [where p = "conn_pass 7" and err = "OtherError False" and s = full_server
      and c = 7 and l = TCPListener and x = "Panicked" and ps = "[timeout_pass]"]
  by (simp add: loop_eval closing_pass_def refused_pass_def strange_pass_def unserved_pass_def
      full_server_def)

section \<open>Properties of the census of requests\<close>

lemma census_covered:
  "covered es c \<Longrightarrow>
   census h es (c, ends) =
     (c + of_nat (length (filter is_Connection es)) - of_nat (length (requests es)),
      ends @ map h (requests es))"
proof (induction es arbitrary: c ends)
  case Nil
  then show ?case by simp
next
  case (Cons e es)
  show ?case
  proof (cases e)
    case Connection
    have ok: "\<not> c + 1 <s 0" and "covered es (c + 1)"
      using Cons.prems Connection by simp_all
    then have "census h es (c + 1, ends) =
        (c + 1 + of_nat (length (filter is_Connection es)) - of_nat (length (requests es)),
         ends @ map h (requests es))"
      using Cons.IH by blast
    then show ?thesis
      using ok Connection by (simp add: wg_Add_def)
  next
    case (Request r)
    have pos: "0 <s c" and "covered es (c - 1)"
      using Cons.prems Request by simp_all
    then have "census h es (c - 1, ends @ [h r]) =
        (c - 1 + of_nat (length (filter is_Connection es)) - of_nat (length (requests es)),
         (ends @ [h r]) @ map h (requests es))"
      using Cons.IH by blast
    then show ?thesis
      using pos Request by (simp add: wrapHandler_def wg_Done_positive)
  qed
qed

lemma census_one_request_each:
  "census h (concat (replicate n [Connection, Request r])) (0, []) = (0, replicate n (h r))"
proof -
  have cov: "covered (concat (replicate n [Connection, Request r])) 0"
    by (induction n) (simp_all add: word_sless_alt)
  have conns: "length (filter is_Connection (concat (replicate n [Connection, Request r]))) = n"
    by (induction n) simp_all
  have reqs: "requests (concat (replicate n [Connection, Request r])) = replicate n r"
    by (induction n) simp_all
  show ?thesis
    using census_covered [OF cov, of h "[]"] by (simp add: conns reqs)
qed

text \<open>
  C1 does not hold of the code. The counter is incremented once per accepted connection
  and decremented once per run of the handler, that is, once per request. On one
  accepted connection that carries two requests the second \<^verbatim>\<open>Done()\<close> leaves the
  counter at \<open>-1\<close> and panics; on one accepted connection that carries no request no
  handler runs and the counter stays at \<open>1\<close>.
\<close>

theorem C1_counter_off:
  "census h [Connection, Request r, Request r'] (0, []) = (- 1, [h r, Panicking])
   \<and> census h [Connection] (0, []) = (1, [])"
  by (simp add: wrapHandler_def wg_Done_def wg_Add_def word_sless_alt)

section \<open>Properties of the shutdown sequence\<close>

lemma inv_start: "shutdown_inv g sig (shutdown_start g c)"
  by (simp add: shutdown_inv_def shutdown_start_def waiting_def timed_out_def
      timeoutWaitGroup_timeoutChan_def)

lemma inv_step: "shutdown_inv g sig s \<Longrightarrow> shutdown_inv g sig (step sig a s)"
proof (cases a)
  case (Select p c)
  assume i: "shutdown_inv g sig s"
  show ?thesis
  proof (cases "taken s p = None \<and> ready s p c")
    case False
    then have "step sig (Select p c) s = s"
      by (auto simp add: timeoutWaitGroup_select_def simp del: ready.simps)
    then show ?thesis using i Select by simp
  next
    case True
    show ?thesis
      using i True Select
      by (cases p; cases c)
        (auto simp add: shutdown_inv_def waiting_def timed_out_def wg_Done_def wg_Add_def
          timeoutWaitGroup_select_def)
  qed
qed (auto simp add: shutdown_inv_def waiting_def timed_out_def timeoutWaitGroup_Wait_def
    ListenAndServe_Wait_def)

lemma inv_run: "shutdown_inv g sig s \<Longrightarrow> shutdown_inv g sig (run sig acts s)"
  by (induction acts arbitrary: s) (simp_all add: inv_step)

lemma run_snoc: "run sig (acts @ [a]) s = step sig a (run sig acts s)"
  by (induction acts arbitrary: s) simp_all


lemma pools_step:
  "pools (step sig a s) p =
     pools s p + (if a = Work_begins p then 1 else 0) - (if a = Work_ends p then 1 else 0)"
  by (cases a)
    (auto simp add: wg_Add_def wg_Done_def timeoutWaitGroup_Wait_def
      timeoutWaitGroup_select_def ListenAndServe_Wait_def)

lemma pools_run:
  "pools (run sig acts s) p = pools s p + of_nat (begun p acts) - of_nat (ended p acts)"
proof (induction acts arbitrary: s)
  case Nil
  then show ?case by (simp add: begun_def ended_def)
next
  case (Cons a acts)
  have "pools (run sig (a # acts) s) p =
      pools (step sig a s) p + of_nat (begun p acts) - of_nat (ended p acts)"
    using Cons.IH [of "step sig a s"] by simp
  then show ?case
    by (simp add: pools_step begun_def ended_def)
qed

lemma doneWG_step:
  "doneWG (step sig a s) p \<Longrightarrow> doneWG s p \<or> pools s p = 0"
  by (cases a)
    (auto simp add: timeoutWaitGroup_Wait_def timeoutWaitGroup_select_def
      ListenAndServe_Wait_def split: if_splits)

lemma doneWG_history:
  "doneWG (run sig acts s0) p \<Longrightarrow>
   doneWG s0 p \<or> (\<exists>k\<le>length acts. pools (run sig (take k acts) s0) p = 0)"
proof (induction acts rule: rev_induct)
  case Nil
  then show ?case by simp
next
  case (snoc a acts)
  have "doneWG (step sig a (run sig acts s0)) p"
    using snoc.prems by (simp add: run_snoc)
  then have "doneWG (run sig acts s0) p \<or> pools (run sig acts s0) p = 0"
    by (rule doneWG_step)
  then show ?case
  proof
    assume "doneWG (run sig acts s0) p"
    then have "doneWG s0 p \<or> (\<exists>k\<le>length acts. pools (run sig (take k acts) s0) p = 0)"
      by (rule snoc.IH)
    then show ?thesis
    proof
      assume "doneWG s0 p"
      then show ?thesis by simp
    next
      assume "\<exists>k\<le>length acts. pools (run sig (take k acts) s0) p = 0"
      then obtain k where k: "k \<le> length acts" and z: "pools (run sig (take k acts) s0) p = 0"
        by blast
      have "take k (acts @ [a]) = take k acts" using k by simp
      then have "pools (run sig (take k (acts @ [a])) s0) p = 0" using z by simp
      moreover have "k \<le> length (acts @ [a])" using k by simp
      ultimately show ?thesis by blast
    qed
  next
    assume z: "pools (run sig acts s0) p = 0"
    have "take (length acts) (acts @ [a]) = acts" by simp
    then have "pools (run sig (take (length acts) (acts @ [a])) s0) p = 0" using z by simp
    moreover have "length acts \<le> length (acts @ [a])" by simp
    ultimately show ?thesis by blast
  qed
qed

lemma inv_all_taken:
  assumes "shutdown_inv g sig s" and "returned s \<noteq> None"
  shows "taken s p \<noteq> None"
proof -
  have "allDoneWG s = waiting s" and "allDoneWG s = 0"
    using assms unfolding shutdown_inv_def by blast+
  then have "waiting s = 0" by simp
  then have "taken s AcceptPool \<noteq> None \<and> taken s RequestPool \<noteq> None
      \<and> taken s GoroutinePool \<noteq> None"
    by (simp add: waiting_def split: if_splits)
  then show ?thesis by (cases p) simp_all
qed

lemma inv_taken_cases:
  assumes "shutdown_inv g sig s" and "taken s p \<noteq> None"
  shows "(taken s p = Some DoneWG \<and> doneWG s p)
     \<or> (taken s p = Some TimeoutChan \<and> timeoutChan s p = Some True \<and> 0 <s timeout g p)"
proof -
  obtain c where c: "taken s p = Some c" using assms(2) by blast
  show ?thesis
  proof (cases c)
    case DoneWG
    then show ?thesis using assms(1) c by (simp add: shutdown_inv_def)
  next
    case TimeoutChan
    then have "timeoutChan s p = Some True" using assms(1) c by (simp add: shutdown_inv_def)
    moreover from this have "0 <s timeout g p"
      using assms(1) unfolding shutdown_inv_def by blast
    ultimately show ?thesis using c TimeoutChan by simp
  qed
qed

text \<open>
  C5. In every state the shutdown sequence can reach: if \<^verbatim>\<open>ListenAndServe\<close> has gone
  past \<^verbatim>\<open>allDoneWG.Wait()\<close> (to re-execute after \<^verbatim>\<open>SIGUSR2\<close>, to return otherwise),
  then each of the three waits has ended, by its \<open>doneWG\<close> closed or by its timer
  fired, the latter only where the grace period is positive; a closed \<open>doneWG\<close> means
  the pool's counter was zero at some moment of the run; the counters are changed by
  the work alone, never by a step of the shutdown sequence (each is its value at the
  start plus the units begun minus the units ended, in the arithmetic of the 32-bit
  counter); the wait for the accept loop never ends by timeout; and the log holds the
  line "some requests did not finish in allowed period, they will be killed" exactly when
  the wait for the requests ended by timeout, the line "some goroutines did not finish in
  allowed period, they will be killed" exactly when the wait for the goroutines ended by
  timeout, and no other line.
\<close>

theorem C5_returns_after_all_waits:
  assumes "s = run sig acts (shutdown_start g c)"
  shows "(returned s \<noteq> None \<longrightarrow>
            returned s = Some (if sig = SIGUSR2 then ReExec else ProcessExit)
            \<and> (\<forall>p. (taken s p = Some DoneWG \<and> doneWG s p)
                   \<or> (taken s p = Some TimeoutChan \<and> timeoutChan s p = Some True
                       \<and> 0 <s timeout g p)))
       \<and> (\<forall>p. doneWG s p \<longrightarrow>
             (\<exists>k\<le>length acts. pools (run sig (take k acts) (shutdown_start g c)) p = 0))
       \<and> (\<forall>p. pools s p = c p + of_nat (begun p acts) - of_nat (ended p acts))
       \<and> taken s AcceptPool \<noteq> Some TimeoutChan
       \<and> (''some requests did not finish in allowed period, they will be killed''
             \<in> set (logged s)) = (taken s RequestPool = Some TimeoutChan)
       \<and> (''some goroutines did not finish in allowed period, they will be killed''
             \<in> set (logged s)) = (taken s GoroutinePool = Some TimeoutChan)
       \<and> set (logged s) \<subseteq> {''some requests did not finish in allowed period, they will be killed'',
            ''some goroutines did not finish in allowed period, they will be killed''}
       \<and> length (logged s) = length (timed_out s)"
proof -
  have i: "shutdown_inv g sig s"
    using assms by (simp add: inv_run inv_start)
  have r: "returned s \<noteq> None \<longrightarrow>
            returned s = Some (if sig = SIGUSR2 then ReExec else ProcessExit)
            \<and> (\<forall>p. (taken s p = Some DoneWG \<and> doneWG s p)
                   \<or> (taken s p = Some TimeoutChan \<and> timeoutChan s p = Some True
                       \<and> 0 <s timeout g p))"
  proof
    assume ret: "returned s \<noteq> None"
    then obtain x where x: "returned s = Some x" by blast
    then have "x = (if sig = SIGUSR2 then ReExec else ProcessExit)"
      using i unfolding shutdown_inv_def by blast
    then have r1: "returned s = Some (if sig = SIGUSR2 then ReExec else ProcessExit)"
      using x by simp
    have r2: "\<forall>p. (taken s p = Some DoneWG \<and> doneWG s p)
                   \<or> (taken s p = Some TimeoutChan \<and> timeoutChan s p = Some True
                       \<and> 0 <s timeout g p)"
      using inv_taken_cases [OF i] inv_all_taken [OF i ret] by blast
    from r1 r2 show "returned s = Some (if sig = SIGUSR2 then ReExec else ProcessExit)
            \<and> (\<forall>p. (taken s p = Some DoneWG \<and> doneWG s p)
                   \<or> (taken s p = Some TimeoutChan \<and> timeoutChan s p = Some True
                       \<and> 0 <s timeout g p))"
      by blast
  qed
  have d: "\<forall>p. doneWG s p \<longrightarrow>
             (\<exists>k\<le>length acts. pools (run sig (take k acts) (shutdown_start g c)) p = 0)"
  proof (intro allI impI)
    fix p
    assume "doneWG s p"
    then have "doneWG (run sig acts (shutdown_start g c)) p" using assms by simp
    then have "doneWG (shutdown_start g c) p
        \<or> (\<exists>k\<le>length acts. pools (run sig (take k acts) (shutdown_start g c)) p = 0)"
      by (rule doneWG_history)
    then show "\<exists>k\<le>length acts. pools (run sig (take k acts) (shutdown_start g c)) p = 0"
      by (simp add: shutdown_start_def)
  qed
  have n: "\<forall>p. pools s p = c p + of_nat (begun p acts) - of_nat (ended p acts)"
    using assms by (simp add: pools_run shutdown_start_def)
  have na: "taken s AcceptPool \<noteq> Some TimeoutChan"
  proof
    assume "taken s AcceptPool = Some TimeoutChan"
    then have "timeoutChan s AcceptPool = Some True"
      using i unfolding shutdown_inv_def by blast
    then have "0 <s timeout g AcceptPool"
      using i unfolding shutdown_inv_def by blast
    then show False by (simp add: word_sless_alt)
  qed
  have lg: "set (logged s) = timeoutMsg ` set (timed_out s)"
    and ln: "length (logged s) = length (timed_out s)"
    using i by (simp_all add: shutdown_inv_def)
  have l1: "(''some requests did not finish in allowed period, they will be killed''
             \<in> set (logged s)) = (taken s RequestPool = Some TimeoutChan)"
    using na by (auto simp add: lg timed_out_def)
  have l2: "(''some goroutines did not finish in allowed period, they will be killed''
             \<in> set (logged s)) = (taken s GoroutinePool = Some TimeoutChan)"
    using na by (auto simp add: lg timed_out_def)
  have l3: "set (logged s) \<subseteq> {''some requests did not finish in allowed period, they will be killed'',
            ''some goroutines did not finish in allowed period, they will be killed''}"
    using na by (auto simp add: lg timed_out_def)
  from r d n na l1 l2 l3 ln show ?thesis by blast
qed

text \<open>
  C8. For a pool whose grace period is zero (or negative), in every state the shutdown
  sequence can reach: the pool has no timer, its wait has not ended by timeout, and if
  its wait has ended (as it has once \<^verbatim>\<open>ListenAndServe\<close> is past
  \<^verbatim>\<open>allDoneWG.Wait()\<close>), it ended by \<open>doneWG\<close>, the pool's counter having been zero
  at some moment of the run.
\<close>

theorem C8_no_timeout_without_grace:
  assumes "\<not> 0 <s timeout g p" and "s = run sig acts (shutdown_start g c)"
  shows "timeoutChan s p = None
       \<and> taken s p \<noteq> Some TimeoutChan
       \<and> (taken s p \<noteq> None \<longrightarrow>
            taken s p = Some DoneWG
            \<and> (\<exists>k\<le>length acts. pools (run sig (take k acts) (shutdown_start g c)) p = 0))
       \<and> (returned s \<noteq> None \<longrightarrow> taken s p = Some DoneWG)"
proof -
  have i: "shutdown_inv g sig s"
    using assms(2) by (simp add: inv_run inv_start)
  have nil: "timeoutChan s p = None"
    using i assms(1) unfolding shutdown_inv_def by blast
  have nt: "taken s p \<noteq> Some TimeoutChan"
  proof
    assume "taken s p = Some TimeoutChan"
    then have "timeoutChan s p = Some True" using i unfolding shutdown_inv_def by blast
    then show False using nil by simp
  qed
  have dr: "taken s p \<noteq> None \<longrightarrow>
            taken s p = Some DoneWG
            \<and> (\<exists>k\<le>length acts. pools (run sig (take k acts) (shutdown_start g c)) p = 0)"
  proof
    assume "taken s p \<noteq> None"
    then have t: "taken s p = Some DoneWG \<and> doneWG s p"
      using inv_taken_cases [OF i, of p] nt by blast
    then have "doneWG (run sig acts (shutdown_start g c)) p" using assms(2) by simp
    then have "doneWG (shutdown_start g c) p
        \<or> (\<exists>k\<le>length acts. pools (run sig (take k acts) (shutdown_start g c)) p = 0)"
      by (rule doneWG_history)
    then have "\<exists>k\<le>length acts. pools (run sig (take k acts) (shutdown_start g c)) p = 0"
      by (simp add: shutdown_start_def)
    then show "taken s p = Some DoneWG
            \<and> (\<exists>k\<le>length acts. pools (run sig (take k acts) (shutdown_start g c)) p = 0)"
      using t by blast
  qed
  have rt: "returned s \<noteq> None \<longrightarrow> taken s p = Some DoneWG"
    using inv_taken_cases [OF i, of p] inv_all_taken [OF i, of p] nt by blast
  from nil nt dr rt show ?thesis by blast
qed

lemmas shutdown_eval =
  shutdown_start_def wait_for_requests_def one_each_def slow_goroutine_def word_sless_alt
  wg_Done_def wg_Add_def timed_out_def begun_def ended_def timeoutWaitGroup_timeoutChan_def
  timeoutWaitGroup_Wait_def timeoutWaitGroup_select_def ListenAndServe_Wait_def

theorem C5_returns_after_all_waits_witness:
  "returned (run SIGUSR2 (take 8 slow_goroutine) (shutdown_start wait_for_requests one_each)) = None
   \<and> returned (run SIGUSR2 slow_goroutine (shutdown_start wait_for_requests one_each)) = Some ReExec
   \<and> returned (run OtherSignal slow_goroutine (shutdown_start wait_for_requests one_each))
       = Some ProcessExit
   \<and> taken (run SIGUSR2 slow_goroutine (shutdown_start wait_for_requests one_each)) AcceptPool
       = Some DoneWG
   \<and> taken (run SIGUSR2 slow_goroutine (shutdown_start wait_for_requests one_each)) RequestPool
       = Some DoneWG
   \<and> taken (run SIGUSR2 slow_goroutine (shutdown_start wait_for_requests one_each)) GoroutinePool
       = Some TimeoutChan
   \<and> pools (run SIGUSR2 slow_goroutine (shutdown_start wait_for_requests one_each)) GoroutinePool
       = 1
   \<and> logged (run SIGUSR2 slow_goroutine (shutdown_start wait_for_requests one_each))
       = [''some goroutines did not finish in allowed period, they will be killed'']"
  using C5_returns_after_all_waits [of
      "run SIGUSR2 slow_goroutine (shutdown_start wait_for_requests one_each)"
      SIGUSR2 slow_goroutine wait_for_requests one_each]
    C5_returns_after_all_waits [of
      "run OtherSignal slow_goroutine (shutdown_start wait_for_requests one_each)"
      OtherSignal slow_goroutine wait_for_requests one_each]
  by (simp add: shutdown_eval)

theorem C8_no_timeout_without_grace_witness:
  "\<not> 0 <s timeout wait_for_requests RequestPool
   \<and> timeout wait_for_requests RequestPool = 0
   \<and> timeoutChan (run SIGUSR2 slow_goroutine (shutdown_start wait_for_requests one_each))
        RequestPool = None
   \<and> taken (run SIGUSR2 (take 8 slow_goroutine) (shutdown_start wait_for_requests one_each))
        RequestPool = None
   \<and> pools (run SIGUSR2 (take 9 slow_goroutine) (shutdown_start wait_for_requests one_each))
        RequestPool = 0
   \<and> taken (run SIGUSR2 slow_goroutine (shutdown_start wait_for_requests one_each))
        RequestPool = Some DoneWG"
  using C8_no_timeout_without_grace [of wait_for_requests RequestPool
      "run SIGUSR2 slow_goroutine (shutdown_start wait_for_requests one_each)"
      SIGUSR2 slow_goroutine one_each]
  by (simp add: shutdown_eval)

end
